theory Spec2Isabelle
  imports Main "HOL-Library.Word" "HOL-Library.Multiset"
begin

unbundle bit_operations_syntax

section \<open>Primitive types of core/block_crypt.cpp\<close>

text \<open>
  \<open>Height\<close> and \<open>Amount\<close> are unsigned 64-bit integers: addition, subtraction and
  multiplication wrap around, comparison is unsigned.
\<close>

type_synonym Height = "64 word"
type_synonym Amount = "64 word"

definition MaxHeight :: Height where
  "MaxHeight = - 1"

subsection \<open>HeightRange\<close>

record HeightRange =
  m_Min :: Height
  m_Max :: Height

definition Reset :: "HeightRange \<Rightarrow> HeightRange" where
  "Reset hr = hr\<lparr>m_Min := 0, m_Max := MaxHeight\<rparr>"

definition Intersect :: "HeightRange \<Rightarrow> HeightRange \<Rightarrow> HeightRange" where
  "Intersect hr x = hr\<lparr>m_Min := max (m_Min hr) (m_Min x), m_Max := min (m_Max hr) (m_Max x)\<rparr>"

definition IsEmpty :: "HeightRange \<Rightarrow> bool" where
  "IsEmpty hr = (m_Min hr > m_Max hr)"

definition IsInRangeRelative :: "HeightRange \<Rightarrow> Height \<Rightarrow> bool" where
  "IsInRangeRelative hr dh = (dh \<le> m_Max hr - m_Min hr)"

definition IsInRange :: "HeightRange \<Rightarrow> Height \<Rightarrow> bool" where
  "IsInRange hr h = IsInRangeRelative hr (h - m_Min hr)"

subsection \<open>Values of the ECC library\<close>

text \<open>
  \<open>ECC::uintBig\<close> (also \<open>ECC::Hash::Value\<close>, \<open>Merkle::Hash\<close> and \<open>AssetID\<close>) is a
  256-bit big-endian number; \<open>AmountBig::Type\<close> is 128 bits wide. An \<open>ECC::Point\<close> is the
  pair of an x coordinate and a y bit, as the code reads and writes them (\<open>pt.m_X\<close>,
  \<open>pt.m_Y = 0\<close>, \<open>ptNeg.m_Y = !ptNeg.m_Y\<close>).
\<close>

type_synonym uintBig = "256 word"
type_synonym AmountBig = "128 word"
type_synonym AssetID = uintBig

record Point =
  m_X :: uintBig
  m_Y :: bool

datatype error = InconsistentForks | AssertionFailed | NullPointer

subsection \<open>Rules\<close>

record HeightHash =
  m_Height :: Height
  m_Hash :: uintBig

text \<open>
  The protocol parameters. The nested structs of the class (\<open>Emission.Value0\<close>,
  \<open>DA.Damp.M\<close>, ...) are flattened, with \<open>_\<close> for the dot. \<open>pForks\<close> is the array of
  forks: \<open>_countof(pForks)\<close> is the length of the list, and the code indexes entries 0, 1
  and 2.
\<close>

record Rules =
  Prehistoric :: uintBig
  TreasuryChecksum :: uintBig
  Emission_Value0 :: Amount
  Emission_Drop0 :: Height
  Emission_Drop1 :: Height
  Maturity_Coinbase :: Height
  Maturity_Std :: Height
  MaxBodySize :: "64 word"
  FakePoW :: bool
  AllowPublicUtxos :: bool
  DA_Target_s :: "32 word"
  DA_MaxAhead_s :: "32 word"
  DA_WindowWork :: "32 word"
  DA_WindowMedian0 :: "32 word"
  DA_WindowMedian1 :: "32 word"
  DA_Difficulty0_m_Packed :: "32 word"
  DA_Damp_M :: "32 word"
  DA_Damp_N :: "32 word"
  MaxRollback :: "32 word"
  MaxKernelValidityDH :: Height
  Shielded_Enabled :: bool
  Shielded_NMax :: "32 word"
  Shielded_NMin :: "32 word"
  Shielded_MaxWindowBacklog :: "32 word"
  CA_Enabled :: bool
  CA_Deposit :: bool
  pForks :: "HeightHash list"

definition HeightGenesis :: Height where
  "HeightGenesis = 1"

definition Coin :: Amount where
  "Coin = 100000000"

subsection \<open>What the sources use and do not define\<close>

text \<open>
  The oracle (a hash transcript), the curve arithmetic, the proof verifiers and a few
  constants are declared outside core/block_crypt.cpp. They are parameters of the model: a
  record of operations over an oracle state \<open>'o\<close> and a native curve point \<open>'n\<close>.
  \<open>Oracle_in\<close> is \<open>operator <<\<close>, \<open>Oracle_out\<close> is \<open>operator >>\<close> into a \<open>uintBig\<close>.
  \<open>Import\<close> and \<open>ImportNnz\<close> return the success flag and the value the native point holds
  afterwards. Signatures and range proofs are opaque: the code only compares them and hands
  them to their verifiers, so each is a number (its canonical serialization).
\<close>

datatype OracleInput =
  In_str string
  | In_bool bool
  | In_u8 "8 word"
  | In_u32 "32 word"
  | In_u64 "64 word"
  | In_uintBig uintBig
  | In_Point Point

type_synonym Signature = nat
type_synonym SignatureGeneralized = nat
type_synonym Confidential = nat

record Public =
  m_Value :: Amount
  m_Signature :: Signature

record ShieldedTxo_Serial =
  m_SerialPub :: Point
  m_Signature :: SignatureGeneralized

record ShieldedTxo =
  m_Commitment :: Point
  m_Serial :: ShieldedTxo_Serial
  m_RangeProof :: Confidential

record SpendProof =
  m_Commitment :: Point
  m_Proof :: nat

record ('o, 'n) Env =
  Oracle_new :: 'o
  Oracle_in :: "OracleInput \<Rightarrow> 'o \<Rightarrow> 'o"
  Oracle_out :: "'o \<Rightarrow> uintBig \<times> 'o"
  Context_hvChecksum :: uintBig
  Block_PoW_K :: "32 word"
  Block_PoW_N :: "32 word"
  Block_PoW_NonceType_nBits :: "32 word"
  BEAM_TESTNET :: bool
  Import :: "Point \<Rightarrow> bool \<times> 'n"
  ImportNnz :: "Point \<Rightarrow> bool \<times> 'n"
  Native_Zero :: 'n
  Native_add :: "'n \<Rightarrow> 'n \<Rightarrow> 'n"
  Native_neg :: "'n \<Rightarrow> 'n"
  Context_m_Ipp_H :: 'n
  Tag_IsCustom :: "'n \<Rightarrow> bool"
  Tag_AddValue :: "'n \<Rightarrow> 'n \<Rightarrow> Amount \<Rightarrow> 'n"
  Confidential_IsValid :: "Confidential \<Rightarrow> 'n \<Rightarrow> 'o \<Rightarrow> 'n \<Rightarrow> bool"
  Public_IsValid :: "Public \<Rightarrow> 'n \<Rightarrow> 'o \<Rightarrow> 'n \<Rightarrow> bool"
  Signature_IsValid :: "Signature \<Rightarrow> uintBig \<Rightarrow> 'n \<Rightarrow> bool"
  SignatureGeneralized_IsValid :: "SignatureGeneralized \<Rightarrow> uintBig \<Rightarrow> 'n \<times> 'n \<Rightarrow> bool"
  Serial_IsValid :: "ShieldedTxo_Serial \<Rightarrow> bool"
  ShieldedTxo_RangeProof_IsValid :: "Confidential \<Rightarrow> 'n \<Rightarrow> 'o \<Rightarrow> bool"

text \<open>A chain \<open>oracle << a << b << c\<close> absorbs the inputs from left to right.\<close>

definition absorb :: "('o, 'n, 'x) Env_scheme \<Rightarrow> OracleInput list \<Rightarrow> 'o \<Rightarrow> 'o" where
  "absorb env xs orc = foldl (\<lambda>st x. Oracle_in env x st) orc xs"

subsection \<open>Emission\<close>

definition nBitsMax :: "32 word" where
  "nBitsMax = push_bit 3 8"

text \<open>
  \<open>Rules::get_EmissionEx\<close> returns the reward and writes \<open>hEnd\<close>: the model returns the
  pair. \<open>assert(Emission.Drop1)\<close> guards the division; the failed assertion is an error.
\<close>

definition get_EmissionEx :: "Rules \<Rightarrow> Height \<Rightarrow> Amount \<Rightarrow> error + (Amount \<times> Height)" where
  "get_EmissionEx r h0 base =
    (let h = h0 - HeightGenesis in
     if h < Emission_Drop0 r then Inr (base, HeightGenesis + Emission_Drop0 r)
     else if Emission_Drop1 r = 0 then Inl AssertionFailed
     else
       let n = 1 + (h - Emission_Drop0 r) div Emission_Drop1 r in
       if n \<ge> ucast nBitsMax then Inr (0, MaxHeight)
       else
         let hEnd = HeightGenesis + Emission_Drop0 r + n * Emission_Drop1 r;
             base' = (if n \<ge> 2 then base + drop_bit 2 base else base)
         in Inr (drop_bit (unat n) base', hEnd))"

definition get_Emission :: "Rules \<Rightarrow> Height \<Rightarrow> error + Amount" where
  "get_Emission r h =
    (case get_EmissionEx r h (Emission_Value0 r) of
       Inl e \<Rightarrow> Inl e
     | Inr (v, hEnd) \<Rightarrow> Inr v)"

text \<open>
  The emission rule in the words of the specification, on natural numbers with the 64-bit
  wrap-around written out: \<open>d = h - genesis\<close>; below \<open>drop0\<close> the reward is \<open>value0\<close>;
  otherwise \<open>n = 1 + (d - drop0) / drop1\<close>, the reward is 0 from \<open>n = 64\<close> on and
  \<open>(value0 + (n \<ge> 2 ? value0 / 4 : 0)) >> n\<close> below.
\<close>

definition spec_Emission :: "nat \<Rightarrow> nat \<Rightarrow> nat \<Rightarrow> nat \<Rightarrow> nat" where
  "spec_Emission value0 drop0 drop1 h =
    (let d = (h + 2 ^ 64 - 1) mod 2 ^ 64 in
     if d < drop0 then value0
     else
       let n = (1 + (d - drop0) div drop1) mod 2 ^ 64 in
       if n \<ge> 64 then 0
       else ((value0 + (if n \<ge> 2 then value0 div 4 else 0)) mod 2 ^ 64) div 2 ^ n)"

subsection \<open>Fork heights and the checksum\<close>

function IsForkHeightsConsistent_loop :: "HeightHash list \<Rightarrow> nat \<Rightarrow> bool" where
  "IsForkHeightsConsistent_loop pf i =
    (if i < length pf then
       (if m_Height (pf ! i) < m_Height (pf ! (i - 1)) then False
        else IsForkHeightsConsistent_loop pf (i + 1))
     else True)"
  by pat_completeness auto
termination
  by (relation "measure (\<lambda>(pf, i). length pf - i)") auto

definition IsForkHeightsConsistent :: "Rules \<Rightarrow> bool" where
  "IsForkHeightsConsistent r =
    (if m_Height (pForks r ! 0) \<noteq> HeightGenesis - 1 then False
     else IsForkHeightsConsistent_loop (pForks r) 1)"

text \<open>The three lists of parameters the oracle absorbs, in the order of the code.\<close>

definition checksum_in0 :: "('o, 'n, 'x) Env_scheme \<Rightarrow> Rules \<Rightarrow> OracleInput list" where
  "checksum_in0 env r =
    [In_uintBig (Context_hvChecksum env),
     In_uintBig (Prehistoric r),
     In_uintBig (TreasuryChecksum r),
     In_u64 HeightGenesis,
     In_u64 Coin,
     In_u64 (Emission_Value0 r),
     In_u64 (Emission_Drop0 r),
     In_u64 (Emission_Drop1 r),
     In_u64 (Maturity_Coinbase r),
     In_u64 (Maturity_Std r),
     In_u64 (MaxBodySize r),
     In_bool (FakePoW r),
     In_bool (AllowPublicUtxos r),
     In_bool False,
     In_bool True,
     In_u32 (DA_Target_s r),
     In_u32 (DA_MaxAhead_s r),
     In_u32 (DA_WindowWork r),
     In_u32 (DA_WindowMedian0 r),
     In_u32 (DA_WindowMedian1 r),
     In_u32 (DA_Difficulty0_m_Packed r),
     In_u32 (MaxRollback r),
     In_u32 720,
     In_u32 (Block_PoW_K env),
     In_u32 (Block_PoW_N env),
     In_u32 (Block_PoW_NonceType_nBits env),
     In_u32 14]
    @ (if BEAM_TESTNET env then [] else [In_str ''masternet''])"

definition checksum_in1 :: "Rules \<Rightarrow> OracleInput list" where
  "checksum_in1 r =
    [In_str ''fork1'',
     In_u64 (m_Height (pForks r ! 1)),
     In_u32 (DA_Damp_M r),
     In_u32 (DA_Damp_N r)]"

definition checksum_in2 :: "Rules \<Rightarrow> OracleInput list" where
  "checksum_in2 r =
    [In_str ''fork2'',
     In_u64 (m_Height (pForks r ! 2)),
     In_u64 (MaxKernelValidityDH r),
     In_bool (Shielded_Enabled r),
     In_u32 1,
     In_u32 (Shielded_NMax r),
     In_u32 (Shielded_NMin r),
     In_u32 (Shielded_MaxWindowBacklog r),
     In_bool (CA_Enabled r),
     In_bool (CA_Deposit r)]"

definition set_Hash :: "nat \<Rightarrow> uintBig \<Rightarrow> HeightHash list \<Rightarrow> HeightHash list" where
  "set_Hash i hv pf = pf[i := (pf ! i)\<lparr>m_Hash := hv\<rparr>]"

text \<open>
  \<open>Rules::UpdateChecksum\<close>: the \<open>std::runtime_error\<close> is the error \<open>InconsistentForks\<close>;
  otherwise the updated rules are returned.
\<close>

definition UpdateChecksum :: "('o, 'n, 'x) Env_scheme \<Rightarrow> Rules \<Rightarrow> error + Rules" where
  "UpdateChecksum env r =
    (if \<not> IsForkHeightsConsistent r then Inl InconsistentForks
     else
       let (hv0, orc0) = Oracle_out env (absorb env (checksum_in0 env r) (Oracle_new env));
           (hv1, orc1) = Oracle_out env (absorb env (checksum_in1 r) orc0);
           (hv2, orc2) = Oracle_out env (absorb env (checksum_in2 r) orc1)
       in Inr (r\<lparr>pForks := set_Hash 2 hv2 (set_Hash 1 hv1 (set_Hash 0 hv0 (pForks r)))\<rparr>))"

text \<open>
  The condition under which the specification asks \<open>UpdateChecksum\<close> to throw: the first
  fork is not at \<open>HeightGenesis - 1\<close>, or some fork is lower than the one before it.
\<close>

definition forks_nonmonotonic :: "Rules \<Rightarrow> bool" where
  "forks_nonmonotonic r =
     (HeightHash.m_Height (pForks r ! 0) \<noteq> HeightGenesis - 1
      \<or> (\<exists>i. 1 \<le> i \<and> i < length (pForks r)
            \<and> HeightHash.m_Height (pForks r ! i) < HeightHash.m_Height (pForks r ! (i - 1))))"

text \<open>The three hashes, each with the oracle state after it, as functions of the absorbed lists.\<close>

definition checksum_hv0 :: "('o, 'n, 'x) Env_scheme \<Rightarrow> Rules \<Rightarrow> uintBig \<times> 'o" where
  "checksum_hv0 env r = Oracle_out env (absorb env (checksum_in0 env r) (Oracle_new env))"

definition checksum_hv1 :: "('o, 'n, 'x) Env_scheme \<Rightarrow> Rules \<Rightarrow> uintBig \<times> 'o" where
  "checksum_hv1 env r = Oracle_out env (absorb env (checksum_in1 r) (snd (checksum_hv0 env r)))"

definition checksum_hv2 :: "('o, 'n, 'x) Env_scheme \<Rightarrow> Rules \<Rightarrow> uintBig \<times> 'o" where
  "checksum_hv2 env r = Oracle_out env (absorb env (checksum_in2 r) (snd (checksum_hv1 env r)))"

subsection \<open>TxStats\<close>

text \<open>
  Modelled from the spec: the declaration of the class \<open>TxStats\<close> is in block_crypt.h,
  outside the sources. The specification lists its fields: fee and coinbase (wide amounts)
  and the counters of kernels, inputs, outputs, shielded inputs and shielded outputs, all
  unsigned. The counters are taken as 32-bit words, so \<open>++\<close> wraps; the statements below
  say where a wrap matters.
\<close>

record TxStats =
  m_Fee :: AmountBig
  m_Coinbase :: AmountBig
  m_Kernels :: "32 word"
  m_Inputs :: "32 word"
  m_Outputs :: "32 word"
  m_InputsShielded :: "32 word"
  m_OutputsShielded :: "32 word"

definition TxStats_Reset :: TxStats where
  "TxStats_Reset =
    \<lparr>m_Fee = 0, m_Coinbase = 0, m_Kernels = 0, m_Inputs = 0, m_Outputs = 0,
     m_InputsShielded = 0, m_OutputsShielded = 0\<rparr>"

definition TxStats_add :: "TxStats \<Rightarrow> TxStats \<Rightarrow> TxStats" where
  "TxStats_add t s =
    \<lparr>m_Fee = m_Fee t + m_Fee s,
     m_Coinbase = m_Coinbase t + m_Coinbase s,
     m_Kernels = m_Kernels t + m_Kernels s,
     m_Inputs = m_Inputs t + m_Inputs s,
     m_Outputs = m_Outputs t + m_Outputs s,
     m_InputsShielded = m_InputsShielded t + m_InputsShielded s,
     m_OutputsShielded = m_OutputsShielded t + m_OutputsShielded s\<rparr>"

definition uintBigFrom :: "Amount \<Rightarrow> AmountBig" where
  "uintBigFrom v = ucast v"

subsection \<open>Three-valued comparison\<close>

text \<open>
  The macros \<open>CMP_SIMPLE\<close>, \<open>CMP_MEMBER_EX\<close> and \<open>CMP_PTRS\<close> return from the enclosing
  function when the two sides differ and fall through otherwise: \<open>then_cmp n rest\<close> is
  "return \<open>n\<close> if it is not 0, else go on with \<open>rest\<close>".
\<close>

definition CMP_SIMPLE :: "'a::linorder \<Rightarrow> 'a \<Rightarrow> int" where
  "CMP_SIMPLE a b = (if a < b then - 1 else if a > b then 1 else 0)"

definition then_cmp :: "int \<Rightarrow> int \<Rightarrow> int" where
  "then_cmp n rest = (if n \<noteq> 0 then n else rest)"

definition CMP_PTRS :: "('a \<Rightarrow> 'a \<Rightarrow> int) \<Rightarrow> 'a option \<Rightarrow> 'a option \<Rightarrow> int" where
  "CMP_PTRS c a b =
    (case a of
       Some x \<Rightarrow> (case b of None \<Rightarrow> 1 | Some y \<Rightarrow> c x y)
     | None \<Rightarrow> (case b of Some y \<Rightarrow> - 1 | None \<Rightarrow> 0))"

text \<open>
  Modelled from the spec: the \<open>cmp\<close> of \<open>uintBig\<close>, of a point, of a signature and of the
  two range proofs are members of the ECC library, outside the sources. The specification
  gives every sortable entity a three-valued compare (-1, 0, +1) that follows the byte order
  of its canonical serialization: a \<open>uintBig\<close> compares as the big-endian number it holds, a
  point by its x coordinate and then its y bit, an opaque object as its serialization.
\<close>

definition uintBig_cmp :: "uintBig \<Rightarrow> uintBig \<Rightarrow> int" where
  "uintBig_cmp a b = CMP_SIMPLE a b"

definition Point_cmp :: "Point \<Rightarrow> Point \<Rightarrow> int" where
  "Point_cmp a b = then_cmp (uintBig_cmp (m_X a) (m_X b)) (CMP_SIMPLE (m_Y a) (m_Y b))"

definition Signature_cmp :: "Signature \<Rightarrow> Signature \<Rightarrow> int" where
  "Signature_cmp a b = CMP_SIMPLE a b"

definition Confidential_cmp :: "Confidential \<Rightarrow> Confidential \<Rightarrow> int" where
  "Confidential_cmp a b = CMP_SIMPLE a b"

definition Public_cmp :: "Public \<Rightarrow> Public \<Rightarrow> int" where
  "Public_cmp a b =
    then_cmp (Signature_cmp (Public.m_Signature a) (Public.m_Signature b))
      (CMP_SIMPLE (Public.m_Value a) (Public.m_Value b))"

subsection \<open>MasterKey\<close>

text \<open>
  A key identifier with value (\<open>Key::IDV\<close>), with the fields the code reads (\<open>m_Idx\<close>,
  \<open>m_Type\<close>, \<open>m_SubIdx\<close>, \<open>m_Value\<close>). Its accessors \<open>get_Subkey\<close> and \<open>get_Scheme\<close>,
  the scheme constants and \<open>ECC::HKdf::CreateChild\<close> are declared outside the sources and
  are parameters. \<open>Key::IKdf::Ptr\<close> is a shared pointer: KDF objects live in a store (a
  list, an address is an index, a null pointer is \<open>None\<close>), and creating a child
  allocates the next address. Reading through a null pointer is the error \<open>NullPointer\<close>.
\<close>

record Key_IDV =
  m_Idx :: "64 word"
  m_Type :: "32 word"
  m_SubIdx :: "32 word"
  m_Value :: Amount

record 'k KeyEnv =
  get_Subkey :: "Key_IDV \<Rightarrow> 32 word"
  get_Scheme :: "Key_IDV \<Rightarrow> 32 word"
  Scheme_V0 :: "32 word"
  Scheme_BB21 :: "32 word"
  HKdf_CreateChild :: "'k \<Rightarrow> 32 word \<Rightarrow> 'k"

type_synonym IKdf_Ptr = "nat option"

definition get_Child_kdf ::
    "('k, 'x) KeyEnv_scheme \<Rightarrow> 'k list \<Rightarrow> 'k \<Rightarrow> 32 word \<Rightarrow> IKdf_Ptr \<times> 'k list" where
  "get_Child_kdf kenv store kdf iSubkey =
    (Some (length store), store @ [HKdf_CreateChild kenv kdf iSubkey])"

definition get_Child ::
    "('k, 'x) KeyEnv_scheme \<Rightarrow> 'k list \<Rightarrow> IKdf_Ptr \<Rightarrow> Key_IDV \<Rightarrow> error + IKdf_Ptr \<times> 'k list" where
  "get_Child kenv store pKdf kidv =
    (let iSubkey = get_Subkey kenv kidv in
     if iSubkey = 0 then Inr (pKdf, store)
     else if Scheme_BB21 kenv = get_Scheme kenv kidv then Inr (pKdf, store)
     else
       (case pKdf of
          None \<Rightarrow> Inl NullPointer
        | Some a \<Rightarrow>
            if a < length store then Inr (get_Child_kdf kenv store (store ! a) iSubkey)
            else Inl NullPointer))"

subsection \<open>SwitchCommitment\<close>

text \<open>
  \<open>SwitchCommitment::HGenFromAID\<close> samples a generator by rejection: its \<open>do ... while\<close>
  loop ends when \<open>ImportNnz\<close> accepts a candidate, so the function is partial and \<open>None\<close>
  stands for a loop that never ends.
\<close>

partial_function (option) HGenFromAID_loop :: "('o, 'n, 'x) Env_scheme \<Rightarrow> 'o \<Rightarrow> 'n option" where
  "HGenFromAID_loop env oracle =
    (case Oracle_out env (Oracle_in env (In_str ''a-gen'') oracle) of
       (x, oracle') \<Rightarrow>
         (case ImportNnz env \<lparr>m_X = x, m_Y = False\<rparr> of
            (ok, result) \<Rightarrow> if ok then Some result else HGenFromAID_loop env oracle'))"

definition HGenFromAID :: "('o, 'n, 'x) Env_scheme \<Rightarrow> AssetID \<Rightarrow> 'n option" where
  "HGenFromAID env assetId =
    (if assetId = 0 then Some (Native_Zero env)
     else HGenFromAID_loop env (absorb env [In_str ''a-id'', In_uintBig assetId] (Oracle_new env)))"

text \<open>The constructor \<open>SwitchCommitment(const AssetID*)\<close>: the result is the field \<open>m_hGen\<close>.\<close>

definition SwitchCommitment :: "('o, 'n, 'x) Env_scheme \<Rightarrow> AssetID option \<Rightarrow> 'n option" where
  "SwitchCommitment env pAssetID =
    HGenFromAID env (case pAssetID of Some a \<Rightarrow> a | None \<Rightarrow> 0)"

subsection \<open>Inputs and outputs\<close>

record TxElement =
  m_Commitment :: Point

record Input_Internal =
  m_Maturity :: Height
  m_ID :: "64 word"

record Input = TxElement +
  m_Internal :: Input_Internal

record Output = TxElement +
  m_Coinbase :: bool
  m_RecoveryOnly :: bool
  m_Incubation :: Height
  m_AssetID :: AssetID
  m_pConfidential :: "Confidential option"
  m_pPublic :: "Public option"

definition TxElement_cmp :: "'a TxElement_scheme \<Rightarrow> 'b TxElement_scheme \<Rightarrow> int" where
  "TxElement_cmp a v = then_cmp (Point_cmp (m_Commitment a) (m_Commitment v)) 0"

definition Input_AddStats :: "Input \<Rightarrow> TxStats \<Rightarrow> TxStats" where
  "Input_AddStats inp s = s\<lparr>m_Inputs := m_Inputs s + 1\<rparr>"

definition Output_cmp :: "Output \<Rightarrow> Output \<Rightarrow> int" where
  "Output_cmp a v =
    then_cmp (TxElement_cmp a v)
    (then_cmp (CMP_SIMPLE (m_Coinbase a) (m_Coinbase v))
    (then_cmp (CMP_SIMPLE (m_RecoveryOnly a) (m_RecoveryOnly v))
    (then_cmp (CMP_SIMPLE (m_Incubation a) (m_Incubation v))
    (then_cmp (uintBig_cmp (m_AssetID a) (m_AssetID v))
    (then_cmp (CMP_PTRS Confidential_cmp (m_pConfidential a) (m_pConfidential v))
    (then_cmp (CMP_PTRS Public_cmp (m_pPublic a) (m_pPublic v)) 0))))))"

definition Output_AddStats :: "Output \<Rightarrow> TxStats \<Rightarrow> TxStats" where
  "Output_AddStats out s =
    (let s1 = s\<lparr>m_Outputs := m_Outputs s + 1\<rparr> in
     case m_pPublic out of
       Some pub \<Rightarrow>
         if m_Coinbase out
         then s1\<lparr>TxStats.m_Coinbase := TxStats.m_Coinbase s1 + uintBigFrom (Public.m_Value pub)\<rparr>
         else s1
     | None \<Rightarrow> s1)"




subsection \<open>Kernels\<close>

text \<open>
  A kernel is the base class \<open>TxKernel\<close> (internal ID, fee, height range, can-embed flag,
  nested kernels) with the fields of its subclass. \<open>TxKernelNonStd\<close> adds the message
  \<open>m_Msg\<close> to the three non-standard subclasses.
\<close>

record HashLock =
  m_IsImage :: bool
  m_Value :: uintBig

record RelativeLock =
  m_ID :: uintBig
  m_LockHeight :: Height

datatype Subtype = Std | AssetEmit | ShieldedOutput | ShieldedInput

datatype KernelSub =
  TxKernelStd Point Signature "HashLock option" "RelativeLock option"
  | TxKernelAssetEmit uintBig Point SignatureGeneralized AssetID "64 word"
  | TxKernelShieldedOutput uintBig ShieldedTxo
  | TxKernelShieldedInput uintBig "64 word" SpendProof

datatype TxKernel =
  TxKernel (m_Internal_m_ID: uintBig) (m_Fee: Amount) (m_Height: HeightRange)
    (m_CanEmbed: bool) (m_vNested: "TxKernel list") (m_Sub: KernelSub)

definition get_Subtype :: "TxKernel \<Rightarrow> Subtype" where
  "get_Subtype k =
    (case m_Sub k of
       TxKernelStd c sg hl rl \<Rightarrow> Std
     | TxKernelAssetEmit msg c sg aid v \<Rightarrow> AssetEmit
     | TxKernelShieldedOutput msg txo \<Rightarrow> ShieldedOutput
     | TxKernelShieldedInput msg we sp \<Rightarrow> ShieldedInput)"

text \<open>
  Modelled from the spec: the numbers of the enumeration \<open>Subtype::Enum\<close> come from the
  macro \<open>BeamKernelsAll\<close> of block_crypt.h, outside the sources. The specification names the
  four variants in this order; they are numbered 1 to 4. The proofs use only that the
  numbering is injective.
\<close>

definition Subtype_Enum :: "Subtype \<Rightarrow> nat" where
  "Subtype_Enum t =
    (case t of Std \<Rightarrow> 1 | AssetEmit \<Rightarrow> 2 | ShieldedOutput \<Rightarrow> 3 | ShieldedInput \<Rightarrow> 4)"

definition HashLock_cmp :: "HashLock \<Rightarrow> HashLock \<Rightarrow> int" where
  "HashLock_cmp a v = then_cmp (uintBig_cmp (HashLock.m_Value a) (HashLock.m_Value v)) 0"

definition RelativeLock_cmp :: "RelativeLock \<Rightarrow> RelativeLock \<Rightarrow> int" where
  "RelativeLock_cmp a v =
    then_cmp (uintBig_cmp (RelativeLock.m_ID a) (RelativeLock.m_ID v))
      (then_cmp (CMP_SIMPLE (m_LockHeight a) (m_LockHeight v)) 0)"

lemma size_m_vNested [termination_simp]: "size_list size (m_vNested k) < size k"
  by (cases k) simp

text \<open>
  \<open>TxKernel::cmp\<close> with the virtual \<open>cmp_Subtype\<close> (only \<open>TxKernelStd\<close> overrides it) and the
  loop of \<open>TxKernelStd::cmp_Subtype\<close> over the two nested lists. \<open>cmp_Subtype\<close> is called
  on kernels of one subtype; on another pair the cast of the code is undefined and the
  model answers 0.
\<close>

function TxKernel_cmp :: "Rules \<Rightarrow> TxKernel \<Rightarrow> TxKernel \<Rightarrow> int"
  and cmp_Subtype :: "Rules \<Rightarrow> TxKernel \<Rightarrow> TxKernel \<Rightarrow> int"
  and cmp_vNested :: "Rules \<Rightarrow> TxKernel list \<Rightarrow> TxKernel list \<Rightarrow> int"
where
  "TxKernel_cmp r a v =
    (let b2Me = (m_Min (TxKernel.m_Height a) \<ge> HeightHash.m_Height (pForks r ! 2));
         b2Other = (m_Min (TxKernel.m_Height v) \<ge> HeightHash.m_Height (pForks r ! 2));
         rest = then_cmp (CMP_SIMPLE (Subtype_Enum (get_Subtype a)) (Subtype_Enum (get_Subtype v)))
                  (cmp_Subtype r a v)
     in if b2Me then
          (if \<not> b2Other then 1
           else then_cmp (uintBig_cmp (m_Internal_m_ID a) (m_Internal_m_ID v)) rest)
        else
          (if b2Other then - 1 else rest))"
| "cmp_Subtype r a v =
    (case m_Sub a of
       TxKernelStd c0 sg0 hl0 rl0 \<Rightarrow>
         (case m_Sub v of
            TxKernelStd c1 sg1 hl1 rl1 \<Rightarrow>
              then_cmp (Point_cmp c0 c1)
              (then_cmp (Signature_cmp sg0 sg1)
              (then_cmp (CMP_SIMPLE (m_Fee a) (m_Fee v))
              (then_cmp (CMP_SIMPLE (m_Min (TxKernel.m_Height a)) (m_Min (TxKernel.m_Height v)))
              (then_cmp (CMP_SIMPLE (m_Max (TxKernel.m_Height a)) (m_Max (TxKernel.m_Height v)))
              (then_cmp (cmp_vNested r (m_vNested a) (m_vNested v))
              (then_cmp (CMP_PTRS HashLock_cmp hl0 hl1)
              (then_cmp (CMP_PTRS RelativeLock_cmp rl0 rl1) 0)))))))
          | _ \<Rightarrow> 0)
     | _ \<Rightarrow> 0)"
| "cmp_vNested r [] [] = 0"
| "cmp_vNested r [] (y # ys) = - 1"
| "cmp_vNested r (x # xs) [] = 1"
| "cmp_vNested r (x # xs) (y # ys) = then_cmp (TxKernel_cmp r x y) (cmp_vNested r xs ys)"
  by pat_completeness auto
termination
  by (relation "measure (\<lambda>x. case x of
        Inl (r, a, v) \<Rightarrow> 2 * size a + 1
      | Inr (Inl (r, a, v)) \<Rightarrow> 2 * size a
      | Inr (Inr (r, xs, ys)) \<Rightarrow> 2 * size_list size xs)")
     (auto simp add: size_m_vNested)

declare TxKernel_cmp.simps [simp del] cmp_Subtype.simps [simp del]

text \<open>
  Validation. \<open>IsValid\<close> takes the running excess \<open>exc\<close> by reference and returns a flag:
  the model returns the flag with the excess left behind. \<open>IsValidBase\<close> also updates the
  commitment behind \<open>pComm\<close> when the pointer is not null. A result is \<open>None\<close> when the
  generator loop of \<open>SwitchCommitment\<close> never ends, \<open>Some (Inl e)\<close> when an assertion
  fails, and \<open>Some (Inr x)\<close> for a returned value \<open>x\<close>.
\<close>

type_synonym 'a result = "(error + 'a) option"

lemma size_m_vNested3: "3 * size_list size (m_vNested k) < Suc (3 * size k)"
  using size_m_vNested [of k] by arith

definition AmountSigned_positive :: "64 word \<Rightarrow> bool" where
  "AmountSigned_positive v = (0 < sint v)"

function TxKernel_IsValid ::
    "('o, 'n, 'x) Env_scheme \<Rightarrow> Rules \<Rightarrow> Height \<Rightarrow> 'n \<Rightarrow> TxKernel option \<Rightarrow> TxKernel
      \<Rightarrow> (bool \<times> 'n) result"
  and IsValidBase ::
    "('o, 'n, 'x) Env_scheme \<Rightarrow> Rules \<Rightarrow> Height \<Rightarrow> 'n \<Rightarrow> TxKernel option \<Rightarrow> 'n option
      \<Rightarrow> TxKernel \<Rightarrow> (bool \<times> 'n \<times> 'n option) result"
  and IsValidBase_loop ::
    "('o, 'n, 'x) Env_scheme \<Rightarrow> Rules \<Rightarrow> Height \<Rightarrow> 'n \<Rightarrow> TxKernel option \<Rightarrow> TxKernel
      \<Rightarrow> TxKernel list \<Rightarrow> (bool \<times> 'n) result"
where
  "TxKernel_IsValid env r hScheme exc pParent k =
    (case m_Sub k of
       TxKernelStd c sg hl rl \<Rightarrow>
         if hScheme < HeightHash.m_Height (pForks r ! 1) \<and> rl \<noteq> None
         then Some (Inr (False, exc))
         else
           (case ImportNnz env c of
              (ok, pt) \<Rightarrow>
                if \<not> ok then Some (Inr (False, exc))
                else
                  (case IsValidBase env r hScheme (Native_add env exc pt) pParent (Some pt) k of
                     None \<Rightarrow> None
                   | Some (Inl e) \<Rightarrow> Some (Inl e)
                   | Some (Inr (okBase, exc1, pComm)) \<Rightarrow>
                       if \<not> okBase then Some (Inr (False, exc1))
                       else if \<not> Signature_IsValid env sg (m_Internal_m_ID k)
                                  (case pComm of Some pt1 \<Rightarrow> pt1 | None \<Rightarrow> pt)
                       then Some (Inr (False, exc1))
                       else Some (Inr (True, exc1))))
     | TxKernelAssetEmit msg c sg aid v \<Rightarrow>
         (case IsValidBase env r hScheme exc pParent None k of
            None \<Rightarrow> None
          | Some (Inl e) \<Rightarrow> Some (Inl e)
          | Some (Inr (okBase, exc1, pComm)) \<Rightarrow>
              if \<not> okBase then Some (Inr (False, exc1))
              else if hScheme < HeightHash.m_Height (pForks r ! 2) \<or> \<not> CA_Enabled r
              then Some (Inr (False, exc1))
              else if v = 0 \<or> aid = 0 then Some (Inr (False, exc1))
              else
                (case ImportNnz env c of
                   (ok0, pt0) \<Rightarrow>
                     if \<not> ok0 then Some (Inr (False, exc1))
                     else
                       (case Import env \<lparr>m_X = aid, m_Y = False\<rparr> of
                          (ok1, pt1) \<Rightarrow>
                            if \<not> ok1 then Some (Inr (False, Native_add env exc1 pt0))
                            else if \<not> SignatureGeneralized_IsValid env sg msg (pt0, pt1)
                            then Some (Inr (False, Native_add env exc1 pt0))
                            else
                              (case SwitchCommitment env (Some aid) of
                                 None \<Rightarrow> None
                               | Some hGen \<Rightarrow>
                                   if \<not> Tag_IsCustom env hGen then Some (Inl AssertionFailed)
                                   else
                                     let hGen1 = Native_neg env hGen;
                                         hGen2 = (if CA_Deposit r
                                                  then Native_add env hGen1 (Context_m_Ipp_H env)
                                                  else hGen1);
                                         val = (if AmountSigned_positive v then v else - v);
                                         hGen3 = (if AmountSigned_positive v then hGen2
                                                  else Native_neg env hGen2)
                                     in Some (Inr (True,
                                          Tag_AddValue env (Native_add env exc1 pt0) hGen3 val))))))
     | TxKernelShieldedOutput msg txo \<Rightarrow>
         (case IsValidBase env r hScheme exc pParent None k of
            None \<Rightarrow> None
          | Some (Inl e) \<Rightarrow> Some (Inl e)
          | Some (Inr (okBase, exc1, pComm)) \<Rightarrow>
              if \<not> okBase then Some (Inr (False, exc1))
              else if hScheme < HeightHash.m_Height (pForks r ! 2) \<or> \<not> Shielded_Enabled r
              then Some (Inr (False, exc1))
              else
                (case ImportNnz env (ShieldedTxo.m_Commitment txo) of
                   (ok, comm) \<Rightarrow>
                     if \<not> ok then Some (Inr (False, exc1))
                     else if \<not> Serial_IsValid env (m_Serial txo)
                     then Some (Inr (False, Native_add env exc1 comm))
                     else Some (Inr
                       (ShieldedTxo_RangeProof_IsValid env (m_RangeProof txo) comm
                          (Oracle_in env (In_uintBig msg) (Oracle_new env)),
                        Native_add env exc1 comm))))
     | TxKernelShieldedInput msg we sp \<Rightarrow>
         (case IsValidBase env r hScheme exc pParent None k of
            None \<Rightarrow> None
          | Some (Inl e) \<Rightarrow> Some (Inl e)
          | Some (Inr (okBase, exc1, pComm)) \<Rightarrow>
              if \<not> okBase then Some (Inr (False, exc1))
              else if hScheme < HeightHash.m_Height (pForks r ! 2) \<or> \<not> Shielded_Enabled r
              then Some (Inr (False, exc1))
              else
                (case ImportNnz env
                        ((SpendProof.m_Commitment sp)\<lparr>m_Y := \<not> m_Y (SpendProof.m_Commitment sp)\<rparr>) of
                   (ok, comm) \<Rightarrow>
                     if \<not> ok then Some (Inr (False, exc1))
                     else Some (Inr (True, Native_add env exc1 comm)))))"
| "IsValidBase env r hScheme exc pParent pComm k =
    (if hScheme < HeightHash.m_Height (pForks r ! 1) \<and> m_CanEmbed k
     then Some (Inr (False, exc, pComm))
     else if
       (case pParent of
          Some parent \<Rightarrow>
            if \<not> m_CanEmbed k then True
            else m_Min (TxKernel.m_Height k) > m_Min (TxKernel.m_Height parent)
                 \<or> m_Max (TxKernel.m_Height k) < m_Max (TxKernel.m_Height parent)
        | None \<Rightarrow>
            hScheme \<ge> HeightHash.m_Height (pForks r ! 2)
            \<and> m_Min (TxKernel.m_Height k) < HeightHash.m_Height (pForks r ! 2))
     then Some (Inr (False, exc, pComm))
     else if m_vNested k = [] then Some (Inr (True, exc, pComm))
     else
       (case IsValidBase_loop env r hScheme (Native_Zero env) None k (m_vNested k) of
          None \<Rightarrow> None
        | Some (Inl e) \<Rightarrow> Some (Inl e)
        | Some (Inr (okNested, excNested)) \<Rightarrow>
            if \<not> okNested then Some (Inr (False, exc, pComm))
            else if hScheme < HeightHash.m_Height (pForks r ! 2) then
              (case pComm of
                 None \<Rightarrow> Some (Inr (False, exc, pComm))
               | Some comm \<Rightarrow>
                   Some (Inr (True, exc, Some (Native_add env comm (Native_neg env excNested)))))
            else Some (Inr (True, Native_add env exc excNested, pComm))))"
| "IsValidBase_loop env r hScheme excNested p0Krn this [] = Some (Inr (True, excNested))"
| "IsValidBase_loop env r hScheme excNested p0Krn this (v # vs) =
    (if hScheme < HeightHash.m_Height (pForks r ! 2)
        \<and> (case p0Krn of Some k0 \<Rightarrow> TxKernel_cmp r k0 v > 0 | None \<Rightarrow> False)
     then Some (Inr (False, excNested))
     else
       (case TxKernel_IsValid env r hScheme excNested (Some this) v of
          None \<Rightarrow> None
        | Some (Inl e) \<Rightarrow> Some (Inl e)
        | Some (Inr (ok, excNested1)) \<Rightarrow>
            if \<not> ok then Some (Inr (False, excNested1))
            else IsValidBase_loop env r hScheme excNested1 (Some v) this vs))"
  by pat_completeness auto
termination
  by (relation "measure (\<lambda>x. case x of
        Inl (env, r, hScheme, exc, pParent, k) \<Rightarrow> 3 * size k + 2
      | Inr (Inl (env, r, hScheme, exc, pParent, pComm, k)) \<Rightarrow> 3 * size k + 1
      | Inr (Inr (env, r, hScheme, exc, p0Krn, this, vs)) \<Rightarrow> 3 * size_list size vs)")
     (auto simp add: size_m_vNested3)

declare TxKernel_IsValid.simps [simp del] IsValidBase.simps [simp del]

text \<open>
  Statistics. \<open>TxKernel::AddStats\<close> counts the kernel, adds its fee and visits the nested
  kernels through the virtual \<open>AddStats\<close>, which the two shielded subclasses override.
\<close>

function TxKernel_AddStats_base :: "TxKernel \<Rightarrow> TxStats \<Rightarrow> TxStats"
  and TxKernel_AddStats :: "TxKernel \<Rightarrow> TxStats \<Rightarrow> TxStats"
  and AddStats_vNested :: "TxKernel list \<Rightarrow> TxStats \<Rightarrow> TxStats"
where
  "TxKernel_AddStats_base k s =
    AddStats_vNested (m_vNested k)
      (s\<lparr>m_Kernels := m_Kernels s + 1,
         TxStats.m_Fee := TxStats.m_Fee s + uintBigFrom (TxKernel.m_Fee k)\<rparr>)"
| "TxKernel_AddStats k s =
    (case m_Sub k of
       TxKernelShieldedOutput msg txo \<Rightarrow>
         (let s1 = TxKernel_AddStats_base k s;
              s2 = s1\<lparr>m_Outputs := m_Outputs s1 + 1\<rparr>
          in s2\<lparr>m_OutputsShielded := m_OutputsShielded s2 + 1\<rparr>)
     | TxKernelShieldedInput msg we sp \<Rightarrow>
         (let s1 = TxKernel_AddStats_base k s;
              s2 = s1\<lparr>m_Inputs := m_Inputs s1 + 1\<rparr>
          in s2\<lparr>m_InputsShielded := m_InputsShielded s2 + 1\<rparr>)
     | _ \<Rightarrow> TxKernel_AddStats_base k s)"
| "AddStats_vNested [] s = s"
| "AddStats_vNested (v # vs) s = AddStats_vNested vs (TxKernel_AddStats v s)"
  by pat_completeness auto
termination
  by (relation "measure (\<lambda>x. case x of
        Inl (k, s) \<Rightarrow> 3 * size k + 1
      | Inr (Inl (k, s)) \<Rightarrow> 3 * size k + 2
      | Inr (Inr (vs, s)) \<Rightarrow> 3 * size_list size vs)")
     (auto simp add: size_m_vNested3)

declare TxKernel_AddStats_base.simps [simp del] TxKernel_AddStats.simps [simp del]

subsection \<open>Transactions and the fee\<close>

record Transaction =
  m_vInputs :: "Input list"
  m_vOutputs :: "Output list"
  m_vKernels :: "TxKernel list"
  m_Offset :: uintBig

text \<open>\<open>TxBase::IReader::AddStats\<close> visits the inputs, then the outputs, then the kernels.\<close>

definition Reader_AddStats :: "Transaction \<Rightarrow> TxStats \<Rightarrow> TxStats" where
  "Reader_AddStats t s =
    AddStats_vNested (m_vKernels t)
      (foldl (\<lambda>st out. Output_AddStats out st)
         (foldl (\<lambda>st inp. Input_AddStats inp st) s (m_vInputs t))
         (m_vOutputs t))"

record FeeSettings =
  m_Output :: Amount
  m_Kernel :: Amount
  m_ShieldedInput :: Amount
  m_ShieldedOutput :: Amount

definition FeeSettings_new :: FeeSettings where
  "FeeSettings_new =
    \<lparr>m_Output = 10, m_Kernel = 10, m_ShieldedInput = 1000, m_ShieldedOutput = 1000\<rparr>"

definition Calculate :: "FeeSettings \<Rightarrow> TxStats \<Rightarrow> Amount" where
  "Calculate fs s =
    m_Output fs * ucast (m_Outputs s)
    + m_Kernel fs * ucast (m_Kernels s)
    + m_ShieldedInput fs * ucast (m_InputsShielded s)
    + m_ShieldedOutput fs * ucast (m_OutputsShielded s)"

definition Calculate_tx :: "FeeSettings \<Rightarrow> Transaction \<Rightarrow> Amount" where
  "Calculate_tx fs t = Calculate fs (Reader_AddStats t TxStats_Reset)"

subsection \<open>Normalization\<close>

text \<open>
  Modelled from the spec: the \<open>operator <\<close> of the element pointers is outside the
  sources; block_crypt.h declares it from \<open>cmp\<close>: \<open>a < b\<close> is \<open>a.cmp(b) < 0\<close>.
\<close>

definition Input_lt :: "Input \<Rightarrow> Input \<Rightarrow> bool" where
  "Input_lt a b = (TxElement_cmp a b < 0)"

definition Output_lt :: "Output \<Rightarrow> Output \<Rightarrow> bool" where
  "Output_lt a b = (Output_cmp a b < 0)"

definition TxKernel_lt :: "Rules \<Rightarrow> TxKernel \<Rightarrow> TxKernel \<Rightarrow> bool" where
  "TxKernel_lt r a b = (TxKernel_cmp r a b < 0)"

text \<open>
  \<open>std::sort\<close> belongs to the C++ library and is a parameter of the model. An
  implementation reaches the elements only through the comparison and moves them, so it
  is given by the positions it returns: for a range of \<open>n\<close> elements, where \<open>m i j\<close> tells
  whether the element at position \<open>i\<close> is less than the one at position \<open>j\<close>, \<open>srt n m\<close> lists
  the positions \<open>0 .. n - 1\<close> in their new order. The result holds, at each place, the
  element of the position listed there.
\<close>

type_synonym std_sort_impl = "nat \<Rightarrow> (nat \<Rightarrow> nat \<Rightarrow> bool) \<Rightarrow> nat list"

definition std_sort :: "std_sort_impl \<Rightarrow> ('a \<Rightarrow> 'a \<Rightarrow> bool) \<Rightarrow> 'a list \<Rightarrow> 'a list" where
  "std_sort srt lt xs = map (\<lambda>i. xs ! i) (srt (length xs) (\<lambda>i j. lt (xs ! i) (xs ! j)))"

text \<open>
  What the library promises of \<open>std::sort\<close>: when the comparison is a strict weak ordering
  of the range (irreflexive, transitive, and with a transitive equivalence \<open>neither is
  less\<close>), the result is a permutation of the range in which no element is less than an
  earlier one. The order of equivalent elements is left open.
\<close>

definition strict_weak_on :: "nat \<Rightarrow> (nat \<Rightarrow> nat \<Rightarrow> bool) \<Rightarrow> bool" where
  "strict_weak_on n m =
    ((\<forall>i<n. \<not> m i i)
     \<and> (\<forall>i<n. \<forall>j<n. \<forall>k<n. m i j \<longrightarrow> m j k \<longrightarrow> m i k)
     \<and> (\<forall>i<n. \<forall>j<n. \<forall>k<n. \<not> m i j \<and> \<not> m j i \<longrightarrow> \<not> m j k \<and> \<not> m k j
            \<longrightarrow> \<not> m i k \<and> \<not> m k i))"

definition std_sort_conforming :: "std_sort_impl \<Rightarrow> bool" where
  "std_sort_conforming srt =
    (\<forall>n m. strict_weak_on n m \<longrightarrow>
       mset (srt n m) = mset [0..<n] \<and> sorted_wrt (\<lambda>i j. \<not> m j i) (srt n m))"

definition CmpInOut :: "Input \<Rightarrow> Output \<Rightarrow> int" where
  "CmpInOut inp out = TxElement_cmp inp out"

text \<open>
  \<open>RebuildVectorWithoutNulls\<close> keeps the entries that are not null; \<open>nDel\<close> only sizes the
  reservation.
\<close>

definition RebuildVectorWithoutNulls :: "'a option list \<Rightarrow> nat \<Rightarrow> 'a option list" where
  "RebuildVectorWithoutNulls v nDel = filter (\<lambda>p. p \<noteq> None) v"

text \<open>
  The sweep of \<open>NormalizeP\<close> works on the two vectors of pointers: \<open>reset\<close> leaves a null
  entry (\<open>None\<close>), and reading through a null pointer is the error \<open>NullPointer\<close>. The inner
  loop runs for the input at \<open>i0\<close> and returns the vectors, the count and \<open>i1\<close> as it
  leaves them; the outer loop visits the inputs in turn.
\<close>

function NormalizeP_inner ::
    "Input option list \<Rightarrow> Output option list \<Rightarrow> nat \<Rightarrow> nat \<Rightarrow> nat
      \<Rightarrow> error + (Input option list \<times> Output option list \<times> nat \<times> nat)" where
  "NormalizeP_inner vInputs vOutputs i0 i1 nDel =
    (if i1 < length vOutputs then
       (case vInputs ! i0 of
          None \<Rightarrow> Inl NullPointer
        | Some pInp \<Rightarrow>
            (case vOutputs ! i1 of
               None \<Rightarrow> Inl NullPointer
             | Some pOut \<Rightarrow>
                 let n = CmpInOut pInp pOut in
                 if n \<le> 0 then
                   (if n = 0
                    then Inr (vInputs[i0 := None], vOutputs[i1 := None], nDel + 1, i1 + 1)
                    else Inr (vInputs, vOutputs, nDel, i1))
                 else NormalizeP_inner vInputs vOutputs i0 (i1 + 1) nDel))
     else Inr (vInputs, vOutputs, nDel, i1))"
  by pat_completeness auto
termination
  by (relation "measure (\<lambda>(vInputs, vOutputs, i0, i1, nDel). length vOutputs - i1)") auto

declare NormalizeP_inner.simps [simp del]

lemma NormalizeP_inner_length:
  "NormalizeP_inner vInputs vOutputs i0 i1 nDel = Inr (vInputs', vOutputs', nDel', i1')
    \<Longrightarrow> length vInputs' = length vInputs"
proof (induction vInputs vOutputs i0 i1 nDel rule: NormalizeP_inner.induct)
  case (1 vInputs vOutputs i0 i1 nDel)
  from "1.prems" show ?case
    by (subst (asm) NormalizeP_inner.simps)
       (auto simp add: Let_def split: if_splits option.splits intro: "1.IH")
qed

function NormalizeP_outer ::
    "Input option list \<Rightarrow> Output option list \<Rightarrow> nat \<Rightarrow> nat \<Rightarrow> nat
      \<Rightarrow> error + (Input option list \<times> Output option list \<times> nat)" where
  "NormalizeP_outer vInputs vOutputs i0 i1 nDel =
    (if i0 < length vInputs then
       (case NormalizeP_inner vInputs vOutputs i0 i1 nDel of
          Inl e \<Rightarrow> Inl e
        | Inr (vInputs', vOutputs', nDel', i1') \<Rightarrow>
            NormalizeP_outer vInputs' vOutputs' (i0 + 1) i1' nDel')
     else Inr (vInputs, vOutputs, nDel))"
  by pat_completeness auto
termination
  by (relation "measure (\<lambda>(vInputs, vOutputs, i0, i1, nDel). length vInputs - i0)")
     (auto dest: NormalizeP_inner_length)

declare NormalizeP_outer.simps [simp del]

text \<open>
  A transaction holds its elements by value; the vectors of pointers exist during the sweep.
  A null pointer left in a vector without the rebuild would be the error \<open>NullPointer\<close>.
\<close>

definition NormalizeP :: "std_sort_impl \<Rightarrow> Transaction \<Rightarrow> error + (Transaction \<times> nat)" where
  "NormalizeP srt t =
    (let vInputs = map Some (std_sort srt Input_lt (m_vInputs t));
         vOutputs = map Some (std_sort srt Output_lt (m_vOutputs t))
     in case NormalizeP_outer vInputs vOutputs 0 0 0 of
          Inl e \<Rightarrow> Inl e
        | Inr (vInputs', vOutputs', nDel) \<Rightarrow>
            let vInputs'' = (if nDel \<noteq> 0 then RebuildVectorWithoutNulls vInputs' nDel
                             else vInputs');
                vOutputs'' = (if nDel \<noteq> 0 then RebuildVectorWithoutNulls vOutputs' nDel
                              else vOutputs')
            in (case those vInputs'' of
                  None \<Rightarrow> Inl NullPointer
                | Some ins \<Rightarrow>
                    (case those vOutputs'' of
                       None \<Rightarrow> Inl NullPointer
                     | Some outs \<Rightarrow> Inr (t\<lparr>m_vInputs := ins, m_vOutputs := outs\<rparr>, nDel))))"

definition NormalizeE :: "std_sort_impl \<Rightarrow> Rules \<Rightarrow> Transaction \<Rightarrow> Transaction" where
  "NormalizeE srt r t = t\<lparr>m_vKernels := std_sort srt (TxKernel_lt r) (m_vKernels t)\<rparr>"

definition Normalize :: "std_sort_impl \<Rightarrow> Rules \<Rightarrow> Transaction \<Rightarrow> error + (Transaction \<times> nat)" where
  "Normalize srt r t = NormalizeP srt (NormalizeE srt r t)"

text \<open>
  The canonical form of the specification: each of the three vectors is sorted (no element
  is greater than a later one), and no input shares its commitment with an output.
\<close>

definition sorted_by :: "('a \<Rightarrow> 'a \<Rightarrow> int) \<Rightarrow> 'a list \<Rightarrow> bool" where
  "sorted_by c xs = sorted_wrt (\<lambda>a b. c a b \<le> 0) xs"

definition no_shared_commitment :: "Input list \<Rightarrow> Output list \<Rightarrow> bool" where
  "no_shared_commitment ins outs =
    (\<forall>i \<in> set ins. \<forall>out \<in> set outs. m_Commitment i \<noteq> m_Commitment out)"

definition canonical :: "Rules \<Rightarrow> Transaction \<Rightarrow> bool" where
  "canonical r t =
    (sorted_by TxElement_cmp (m_vInputs t)
     \<and> sorted_by Output_cmp (m_vOutputs t)
     \<and> sorted_by (TxKernel_cmp r) (m_vKernels t)
     \<and> no_shared_commitment (m_vInputs t) (m_vOutputs t))"

text \<open>
  Equality up to the order of equivalent elements: two vectors hold the same elements
  and, position by position, elements that compare equal; two transactions have such
  vectors and the same offset. A vector is free of ties when elements of it that compare
  equal are equal.
\<close>

definition same_up_to_ties :: "('a \<Rightarrow> 'a \<Rightarrow> int) \<Rightarrow> 'a list \<Rightarrow> 'a list \<Rightarrow> bool" where
  "same_up_to_ties c xs ys = (mset ys = mset xs \<and> list_all2 (\<lambda>a b. c a b = 0) xs ys)"

definition equal_up_to_ties :: "Rules \<Rightarrow> Transaction \<Rightarrow> Transaction \<Rightarrow> bool" where
  "equal_up_to_ties r t t' =
    (same_up_to_ties TxElement_cmp (m_vInputs t) (m_vInputs t')
     \<and> same_up_to_ties Output_cmp (m_vOutputs t) (m_vOutputs t')
     \<and> same_up_to_ties (TxKernel_cmp r) (m_vKernels t) (m_vKernels t')
     \<and> m_Offset t' = m_Offset t)"

definition no_ties :: "('a \<Rightarrow> 'a \<Rightarrow> int) \<Rightarrow> 'a list \<Rightarrow> bool" where
  "no_ties c xs = (\<forall>a \<in> set xs. \<forall>b \<in> set xs. c a b = 0 \<longrightarrow> a = b)"

definition tie_free :: "Rules \<Rightarrow> Transaction \<Rightarrow> bool" where
  "tie_free r t =
    (no_ties TxElement_cmp (m_vInputs t)
     \<and> no_ties Output_cmp (m_vOutputs t)
     \<and> no_ties (TxKernel_cmp r) (m_vKernels t))"

text \<open>
  What one shielded kernel adds to the statistics by itself, apart from its nested
  kernels: the kernel, its fee, and one output (or input) counted both as plain and as
  shielded.
\<close>

definition own_ShieldedOutput :: "Amount \<Rightarrow> TxStats" where
  "own_ShieldedOutput fee =
    \<lparr>TxStats.m_Fee = uintBigFrom fee, TxStats.m_Coinbase = 0, m_Kernels = 1, m_Inputs = 0, m_Outputs = 1,
     m_InputsShielded = 0, m_OutputsShielded = 1\<rparr>"

definition own_ShieldedInput :: "Amount \<Rightarrow> TxStats" where
  "own_ShieldedInput fee =
    \<lparr>TxStats.m_Fee = uintBigFrom fee, TxStats.m_Coinbase = 0, m_Kernels = 1, m_Inputs = 1, m_Outputs = 0,
     m_InputsShielded = 1, m_OutputsShielded = 0\<rparr>"

subsection \<open>Auxiliary notions of the proofs\<close>

text \<open>
  Auxiliary notions for the order proofs: the transitivity of a three-valued comparison,
  stated on the three results \<open>c a b\<close>, \<open>c b d\<close> and \<open>c a d\<close>; and the two flags
  \<open>TxKernel::cmp\<close> computes first, as functions of one kernel.
\<close>

definition cmp_trans3 :: "int \<Rightarrow> int \<Rightarrow> int \<Rightarrow> bool" where
  "cmp_trans3 x y z = (x \<le> 0 \<longrightarrow> y \<le> 0 \<longrightarrow> z \<le> 0 \<and> (z = 0 \<longrightarrow> x = 0 \<and> y = 0))"

definition b2 :: "Rules \<Rightarrow> TxKernel \<Rightarrow> bool" where
  "b2 r k = (m_Min (TxKernel.m_Height k) \<ge> HeightHash.m_Height (pForks r ! 2))"

definition b2_ID :: "Rules \<Rightarrow> TxKernel \<Rightarrow> uintBig" where
  "b2_ID r k = (if b2 r k then m_Internal_m_ID k else 0)"

text \<open>
  The values behind the pointers of a vector that are not null; and the cut-through as a
  function on two lists: the inputs kept, the outputs kept and the pairs removed. The
  sweep of \<open>NormalizeP\<close> is proved to compute it.
\<close>

definition compact :: "'a option list \<Rightarrow> 'a list" where
  "compact v = map the (filter (\<lambda>p. p \<noteq> None) v)"

fun cut_through :: "Input list \<Rightarrow> Output list \<Rightarrow> Input list \<times> Output list \<times> (Input \<times> Output) list" where
  "cut_through [] outs = ([], outs, [])"
| "cut_through (i # ins) [] =
    (case cut_through ins [] of (a, b, rp) \<Rightarrow> (i # a, b, rp))"
| "cut_through (i # ins) (out # outs) =
    (if CmpInOut i out > 0 then
       (case cut_through (i # ins) outs of (a, b, rp) \<Rightarrow> (a, out # b, rp))
     else if CmpInOut i out = 0 then
       (case cut_through ins outs of (a, b, rp) \<Rightarrow> (a, b, (i, out) # rp))
     else
       (case cut_through ins (out # outs) of (a, b, rp) \<Rightarrow> (i # a, b, rp)))"

subsection \<open>A concrete parameter set\<close>

text \<open>
  Concrete rules and a small instance of the library parameters, on which the model is
  evaluated: the oracle state is the list of absorbed inputs and its output is the length
  of that list; a native point is an integer, imported from the x coordinate.
\<close>

definition sample_Rules :: Rules where
  "sample_Rules =
    \<lparr>Prehistoric = 0, TreasuryChecksum = 0,
     Emission_Value0 = 80 * Coin, Emission_Drop0 = 525600, Emission_Drop1 = 2102400,
     Maturity_Coinbase = 240, Maturity_Std = 0,
     MaxBodySize = 1048576, FakePoW = False, AllowPublicUtxos = False,
     DA_Target_s = 60, DA_MaxAhead_s = 900, DA_WindowWork = 120,
     DA_WindowMedian0 = 25, DA_WindowMedian1 = 7, DA_Difficulty0_m_Packed = 0,
     DA_Damp_M = 1, DA_Damp_N = 3, MaxRollback = 1440, MaxKernelValidityDH = 43200,
     Shielded_Enabled = True, Shielded_NMax = 0, Shielded_NMin = 0,
     Shielded_MaxWindowBacklog = 0, CA_Enabled = True, CA_Deposit = True,
     pForks = [\<lparr>HeightHash.m_Height = 0, m_Hash = 0\<rparr>, \<lparr>HeightHash.m_Height = 321321, m_Hash = 0\<rparr>,
               \<lparr>HeightHash.m_Height = 400000, m_Hash = 0\<rparr>]\<rparr>"

definition sample_Env :: "(OracleInput list, int) Env" where
  "sample_Env =
    \<lparr>Oracle_new = [],
     Oracle_in = (\<lambda>x st. st @ [x]),
     Oracle_out = (\<lambda>st. (of_nat (length st), st @ [In_uintBig (of_nat (length st))])),
     Context_hvChecksum = 0,
     Block_PoW_K = 5, Block_PoW_N = 150, Block_PoW_NonceType_nBits = 64,
     BEAM_TESTNET = False,
     Import = (\<lambda>p. (True, uint (m_X p))),
     ImportNnz = (\<lambda>p. (m_X p \<noteq> 0, uint (m_X p))),
     Native_Zero = 0,
     Native_add = (\<lambda>a b. a + b),
     Native_neg = (\<lambda>a. - a),
     Context_m_Ipp_H = 1,
     Tag_IsCustom = (\<lambda>g. g \<noteq> 0),
     Tag_AddValue = (\<lambda>e g v. e + g * uint v),
     Confidential_IsValid = (\<lambda>p c orc g. True),
     Public_IsValid = (\<lambda>p c orc g. True),
     Signature_IsValid = (\<lambda>sg m pk. True),
     SignatureGeneralized_IsValid = (\<lambda>sg m pks. True),
     Serial_IsValid = (\<lambda>sr. True),
     ShieldedTxo_RangeProof_IsValid = (\<lambda>p c orc. True)\<rparr>"


definition sample_KeyEnv :: "nat KeyEnv" where
  "sample_KeyEnv =
    \<lparr>get_Subkey = (\<lambda>k. m_SubIdx k AND 16777215),
     get_Scheme = (\<lambda>k. drop_bit 24 (m_SubIdx k)),
     Scheme_V0 = 0, Scheme_BB21 = 2,
     HKdf_CreateChild = (\<lambda>k i. k * 1000 + unat i)\<rparr>"

definition sample_Std :: "Amount \<Rightarrow> Height \<Rightarrow> Height \<Rightarrow> TxKernel" where
  "sample_Std fee hmin hmax =
    TxKernel 0 fee \<lparr>m_Min = hmin, m_Max = hmax\<rparr> True []
      (TxKernelStd \<lparr>m_X = 1, m_Y = False\<rparr> 0 None None)"

definition sample_Txo :: ShieldedTxo where
  "sample_Txo =
    \<lparr>ShieldedTxo.m_Commitment = \<lparr>m_X = 1, m_Y = False\<rparr>,
     m_Serial = \<lparr>m_SerialPub = \<lparr>m_X = 2, m_Y = False\<rparr>, ShieldedTxo_Serial.m_Signature = 0\<rparr>,
     m_RangeProof = 0\<rparr>"

definition sample_SpendProof :: SpendProof where
  "sample_SpendProof = \<lparr>SpendProof.m_Commitment = \<lparr>m_X = 1, m_Y = False\<rparr>, m_Proof = 0\<rparr>"

definition sample_ShieldedOutput :: TxKernel where
  "sample_ShieldedOutput =
    TxKernel 0 7 \<lparr>m_Min = 400000, m_Max = 500000\<rparr> False []
      (TxKernelShieldedOutput 0 sample_Txo)"

definition sample_ShieldedInput :: TxKernel where
  "sample_ShieldedInput =
    TxKernel 0 9 \<lparr>m_Min = 400000, m_Max = 500000\<rparr> False []
      (TxKernelShieldedInput 0 0 sample_SpendProof)"

definition sample_In :: "uintBig \<Rightarrow> Input" where
  "sample_In x = \<lparr>m_Commitment = \<lparr>m_X = x, m_Y = False\<rparr>,
     m_Internal = \<lparr>m_Maturity = 0, Input_Internal.m_ID = 0\<rparr>\<rparr>"

definition sample_Out :: "uintBig \<Rightarrow> Output" where
  "sample_Out x = \<lparr>m_Commitment = \<lparr>m_X = x, m_Y = False\<rparr>, m_Coinbase = False,
     m_RecoveryOnly = False, m_Incubation = 0, m_AssetID = 0,
     m_pConfidential = Some 11, m_pPublic = None\<rparr>"

definition sample_Tx :: Transaction where
  "sample_Tx = \<lparr>m_vInputs = [sample_In 5],
     m_vOutputs = [sample_Out 9, sample_Out 5, sample_Out 7],
     m_vKernels = [sample_Std 2 400001 500000, sample_Std 1 10 500000],
     m_Offset = 0\<rparr>"

definition sample_Tx_normal :: Transaction where
  "sample_Tx_normal = \<lparr>m_vInputs = [],
     m_vOutputs = [sample_Out 7, sample_Out 9],
     m_vKernels = [sample_Std 1 10 500000, sample_Std 2 400001 500000],
     m_Offset = 0\<rparr>"

text \<open>
  An implementation of the library's sort, on which the model is evaluated: an introsort
  in the manner of the GNU C++ library. A range of more than 16 elements is partitioned
  around the median of three of its elements, and so are its parts, to a depth of
  \<open>2 * lg n\<close>; an insertion sort finishes. Where the GNU library turns to a heap sort, at
  depth 0, the range is left to the insertion sort; and the two scans of the partition
  stop at the ends of the vector, which the library leaves to the pivot.
\<close>

definition iter_swap :: "nat \<Rightarrow> nat \<Rightarrow> 'a list \<Rightarrow> 'a list" where
  "iter_swap i j xs = (if i < length xs \<and> j < length xs then xs[i := xs ! j, j := xs ! i] else xs)"

definition move_median_to_first ::
    "('a \<Rightarrow> 'a \<Rightarrow> bool) \<Rightarrow> 'a list \<Rightarrow> nat \<Rightarrow> nat \<Rightarrow> nat \<Rightarrow> nat \<Rightarrow> 'a list" where
  "move_median_to_first lt xs result a b c =
    (if lt (xs ! a) (xs ! b) then
       (if lt (xs ! b) (xs ! c) then iter_swap result b xs
        else if lt (xs ! a) (xs ! c) then iter_swap result c xs
        else iter_swap result a xs)
     else if lt (xs ! a) (xs ! c) then iter_swap result a xs
     else if lt (xs ! b) (xs ! c) then iter_swap result c xs
     else iter_swap result b xs)"

function partition_up :: "('a \<Rightarrow> 'a \<Rightarrow> bool) \<Rightarrow> 'a list \<Rightarrow> nat \<Rightarrow> nat \<Rightarrow> nat" where
  "partition_up lt xs first pivot =
    (if first < length xs \<and> lt (xs ! first) (xs ! pivot)
     then partition_up lt xs (first + 1) pivot else first)"
  by pat_completeness auto
termination
  by (relation "measure (\<lambda>(lt, xs, first, pivot). length xs - first)") auto

function partition_down :: "('a \<Rightarrow> 'a \<Rightarrow> bool) \<Rightarrow> 'a list \<Rightarrow> nat \<Rightarrow> nat \<Rightarrow> nat" where
  "partition_down lt xs lst pivot =
    (if 0 < lst \<and> lt (xs ! pivot) (xs ! lst)
     then partition_down lt xs (lst - 1) pivot else lst)"
  by pat_completeness auto
termination
  by (relation "measure (\<lambda>(lt, xs, lst, pivot). lst)") auto

declare partition_up.simps [simp del] partition_down.simps [simp del]

lemma partition_up_ge: "first \<le> partition_up lt xs first pivot"
proof (induction lt xs first pivot rule: partition_up.induct)
  case (1 lt xs first pivot)
  show ?case
  proof (cases "first < length xs \<and> lt (xs ! first) (xs ! pivot)")
    case True
    with "1.IH" have "first + 1 \<le> partition_up lt xs (first + 1) pivot" by simp
    with True show ?thesis by (subst partition_up.simps) simp
  next
    case False
    then show ?thesis by (subst partition_up.simps) auto
  qed
qed

lemma partition_down_le: "partition_down lt xs lst pivot \<le> lst"
proof (induction lt xs lst pivot rule: partition_down.induct)
  case (1 lt xs lst pivot)
  show ?case
  proof (cases "0 < lst \<and> lt (xs ! pivot) (xs ! lst)")
    case True
    with "1.IH" have "partition_down lt xs (lst - 1) pivot \<le> lst - 1" by simp
    with True show ?thesis by (subst partition_down.simps) simp
  next
    case False
    then show ?thesis by (subst partition_down.simps) auto
  qed
qed

function unguarded_partition ::
    "('a \<Rightarrow> 'a \<Rightarrow> bool) \<Rightarrow> 'a list \<Rightarrow> nat \<Rightarrow> nat \<Rightarrow> nat \<Rightarrow> 'a list \<times> nat" where
  "unguarded_partition lt xs first lst pivot =
    (let first1 = partition_up lt xs first pivot;
         last1 = partition_down lt xs (lst - 1) pivot
     in if \<not> first1 < last1 then (xs, first1)
        else unguarded_partition lt (iter_swap first1 last1 xs) (first1 + 1) last1 pivot)"
  by pat_completeness auto
termination
proof (relation "measure (\<lambda>(lt, xs, first, lst, pivot). lst - first)", goal_cases)
  case 1
  show ?case by simp
next
  case (2 lt xs first lst pivot f l)
  from partition_up_ge [of first lt xs pivot] partition_down_le [of lt xs "lst - 1" pivot] 2
  show ?case by simp
qed

declare unguarded_partition.simps [simp del]

definition unguarded_partition_pivot ::
    "('a \<Rightarrow> 'a \<Rightarrow> bool) \<Rightarrow> 'a list \<Rightarrow> nat \<Rightarrow> nat \<Rightarrow> 'a list \<times> nat" where
  "unguarded_partition_pivot lt xs first lst =
    (let mid = first + (lst - first) div 2;
         xs' = move_median_to_first lt xs first (first + 1) mid (lst - 1)
     in unguarded_partition lt xs' (first + 1) lst first)"

function introsort_loop ::
    "('a \<Rightarrow> 'a \<Rightarrow> bool) \<Rightarrow> 'a list \<Rightarrow> nat \<Rightarrow> nat \<Rightarrow> nat \<Rightarrow> 'a list" where
  "introsort_loop lt xs first lst depth_limit =
    (if 16 < lst - first then
       (if depth_limit = 0 then xs
        else
          (case unguarded_partition_pivot lt xs first lst of
             (xs', cutp) \<Rightarrow>
               introsort_loop lt (introsort_loop lt xs' cutp lst (depth_limit - 1))
                 first cutp (depth_limit - 1)))
     else xs)"
  by pat_completeness auto
termination
  by (relation "measure (\<lambda>(lt, xs, first, lst, depth_limit). depth_limit)") auto

declare introsort_loop.simps [simp del]

fun lg :: "nat \<Rightarrow> nat" where
  "lg n = (if n < 2 then 0 else Suc (lg (n div 2)))"

declare lg.simps [simp del]

fun linear_insert :: "('a \<Rightarrow> 'a \<Rightarrow> bool) \<Rightarrow> 'a \<Rightarrow> 'a list \<Rightarrow> 'a list" where
  "linear_insert lt x [] = [x]"
| "linear_insert lt x (y # ys) = (if lt y x then y # linear_insert lt x ys else x # y # ys)"

fun insertion_sort :: "('a \<Rightarrow> 'a \<Rightarrow> bool) \<Rightarrow> 'a list \<Rightarrow> 'a list" where
  "insertion_sort lt [] = []"
| "insertion_sort lt (x # xs) = linear_insert lt x (insertion_sort lt xs)"

definition sample_sort :: std_sort_impl where
  "sample_sort n m =
    (if n = 0 then []
     else insertion_sort m (introsort_loop m [0..<n] 0 n (lg n * 2)))"

text \<open>
  A canonical transaction with equivalent elements: 17 inputs of one commitment, told
  apart by \<open>m_Internal.m_ID\<close>, and 17 shielded output kernels from before Fork2, told
  apart by their fee and their ID (\<open>TxKernel::cmp\<close> takes such kernels for equal: below
  Fork2 it leaves the ID aside, and the base \<open>cmp_Subtype\<close> returns 0); and the transaction
  as the sort above leaves it after one and after two runs of \<open>Normalize\<close>.
\<close>

definition tied_In :: "nat \<Rightarrow> Input" where
  "tied_In k = \<lparr>m_Commitment = \<lparr>m_X = 5, m_Y = False\<rparr>,
     m_Internal = \<lparr>m_Maturity = 0, Input_Internal.m_ID = of_nat k\<rparr>\<rparr>"

definition tied_Kernel :: "nat \<Rightarrow> TxKernel" where
  "tied_Kernel k =
    TxKernel (of_nat k) (of_nat k) \<lparr>m_Min = 10, m_Max = 500000\<rparr> False []
      (TxKernelShieldedOutput 0 sample_Txo)"

definition sample_Tx_tied :: Transaction where
  "sample_Tx_tied = \<lparr>m_vInputs = map tied_In [0..<17], m_vOutputs = [],
     m_vKernels = map tied_Kernel [0..<17], m_Offset = 0\<rparr>"

definition sample_Tx_tied_1 :: Transaction where
  "sample_Tx_tied_1 =
    \<lparr>m_vInputs = map tied_In [8, 16, 15, 14, 13, 12, 11, 10, 9, 0, 7, 6, 5, 4, 3, 2, 1],
     m_vOutputs = [],
     m_vKernels = map tied_Kernel [8, 16, 15, 14, 13, 12, 11, 10, 9, 0, 7, 6, 5, 4, 3, 2, 1],
     m_Offset = 0\<rparr>"

definition sample_Tx_tied_2 :: Transaction where
  "sample_Tx_tied_2 =
    \<lparr>m_vInputs = map tied_In [9, 1, 2, 3, 4, 5, 6, 7, 0, 8, 10, 11, 12, 13, 14, 15, 16],
     m_vOutputs = [],
     m_vKernels = map tied_Kernel [9, 1, 2, 3, 4, 5, 6, 7, 0, 8, 10, 11, 12, 13, 14, 15, 16],
     m_Offset = 0\<rparr>"

section \<open>Verified properties\<close>

subsection \<open>HeightRange membership\<close>

lemma word_sub_le_sub_iff:
  fixes a b c :: "'a::len word"
  assumes "a \<le> b"
  shows "(c - a \<le> b - a) = (a \<le> c \<and> c \<le> b)"
proof (cases "a \<le> c")
  case True
  with assms show ?thesis
    by (auto simp add: word_le_nat_alt unat_sub)
next
  case False
  then have ca: "c < a" by simp
  have 1: "unat (c - a) = 2 ^ LENGTH('a) + unat c - unat a"
    using ca by (simp add: unat_sub_if' word_less_nat_alt)
  have 2: "unat (b - a) = unat b - unat a"
    using assms by (simp add: unat_sub)
  have 3: "unat b < 2 ^ LENGTH('a)" by (rule unsigned_less)
  have 4: "unat c < unat a" using ca by (simp add: word_less_nat_alt)
  have 5: "unat a \<le> unat b" using assms by (simp add: word_le_nat_alt)
  have "\<not> (unat (c - a) \<le> unat (b - a))"
    unfolding 1 2 using 3 4 5 by arith
  then have "\<not> (c - a \<le> b - a)"
    by (simp add: word_le_nat_alt)
  with False show ?thesis by simp
qed

text \<open>
  C7 (as amended). For every non-empty HeightRange (\<open>m_Min \<le> m_Max\<close>) and every height
  \<open>h\<close>, \<open>IsInRange h\<close> holds exactly when \<open>m_Min \<le> h\<close> and \<open>h \<le> m_Max\<close>; and for every
  HeightRange, \<open>IsEmpty\<close> holds exactly when \<open>m_Min > m_Max\<close>.
\<close>

theorem C7_IsInRange_nonempty:
  "(\<not> IsEmpty hr \<longrightarrow> IsInRange hr h = (m_Min hr \<le> h \<and> h \<le> m_Max hr))
   \<and> IsEmpty hr = (m_Min hr > m_Max hr)"
  by (simp add: IsEmpty_def IsInRange_def IsInRangeRelative_def word_sub_le_sub_iff not_less)

theorem C7_IsInRange_nonempty_witness:
  "\<not> IsEmpty \<lparr>m_Min = 3, m_Max = 10\<rparr>
   \<and> IsInRange \<lparr>m_Min = 3, m_Max = 10\<rparr> 7 = ((3::Height) \<le> 7 \<and> (7::Height) \<le> 10)
   \<and> IsInRange \<lparr>m_Min = 3, m_Max = 10\<rparr> 7"
  using C7_IsInRange_nonempty [of "\<lparr>m_Min = 3, m_Max = 10\<rparr>" 7]
  by (simp add: IsEmpty_def)

text \<open>
  C7 (as stated) fails on an empty range: with \<open>m_Min = 5\<close> and \<open>m_Max = 3\<close> the
  difference \<open>m_Max - m_Min\<close> wraps to \<open>2^64 - 2\<close>, and height 6 is reported in range
  although \<open>6 \<le> 3\<close> is false.
\<close>

theorem C7_IsInRange_empty_counterexample:
  "IsEmpty \<lparr>m_Min = 5, m_Max = 3\<rparr> \<and> IsInRange \<lparr>m_Min = 5, m_Max = 3\<rparr> 6
   \<and> \<not> ((5::Height) \<le> 6 \<and> (6::Height) \<le> 3)"
  by (simp add: IsEmpty_def IsInRange_def IsInRangeRelative_def word_le_nat_alt)

subsection \<open>Emission\<close>

lemma unat_sub_HeightGenesis:
  "unat ((h::Height) - HeightGenesis) = (unat h + 2 ^ 64 - 1) mod 2 ^ 64"
proof -
  have s: "unat (h - 1) = (if 1 \<le> unat h then unat h - 1 else 2 ^ 64 + unat h - 1)"
    using unat_sub_if' [of h 1] by simp
  have b: "unat h < 2 ^ 64" using unsigned_less [of h, where 'a=nat] by simp
  show ?thesis
  proof (cases "1 \<le> unat h")
    case True
    then have "unat h + 2 ^ 64 - 1 = (unat h - 1) + 2 ^ 64" by simp
    moreover have "unat h - 1 < 2 ^ 64" using b by arith
    ultimately have "(unat h + 2 ^ 64 - 1) mod 2 ^ 64 = unat h - 1"
      by (simp only: mod_add_self2 mod_less)
    then show ?thesis using True s by (simp only: HeightGenesis_def if_True)
  next
    case False
    then have z: "unat h = 0" by arith
    have "((0::nat) + 2 ^ 64 - 1) mod 2 ^ 64 = 2 ^ 64 + 0 - 1" by simp
    then show ?thesis using False s unfolding z HeightGenesis_def by (simp only: if_False)
  qed
qed

lemma ucast_nBitsMax: "(ucast nBitsMax :: Height) = 64"
  by (simp add: nBitsMax_def)

lemma unat_emission_n:
  fixes d d0 d1 :: Height
  assumes "d0 \<le> d"
  shows "unat (1 + (d - d0) div d1) = (1 + (unat d - unat d0) div unat d1) mod 2 ^ 64"
  using assms by (simp add: unat_word_ariths unat_div unat_sub mod_Suc_eq)

lemma unat_quarter_add:
  fixes b :: Amount
  shows "unat (b + drop_bit 2 b) = (unat b + unat b div 4) mod 2 ^ 64"
  by (simp add: unat_word_ariths unat_drop_bit_eq drop_bit_eq_div mod_add_right_eq)

lemma unat_drop_bit_div:
  fixes w :: Amount
  shows "unat (drop_bit k w) = unat w div 2 ^ k"
  unfolding unat_drop_bit_eq by (rule drop_bit_eq_div)

lemma spec_Emission_unfold:
  "spec_Emission v d0 d1 h =
    (if (h + 2 ^ 64 - 1) mod 2 ^ 64 < d0 then v
     else if (1 + ((h + 2 ^ 64 - 1) mod 2 ^ 64 - d0) div d1) mod 2 ^ 64 \<ge> 64 then 0
     else ((v + (if (1 + ((h + 2 ^ 64 - 1) mod 2 ^ 64 - d0) div d1) mod 2 ^ 64 \<ge> 2
                 then v div 4 else 0)) mod 2 ^ 64)
          div 2 ^ ((1 + ((h + 2 ^ 64 - 1) mod 2 ^ 64 - d0) div d1) mod 2 ^ 64))"
  unfolding spec_Emission_def Let_def by (rule refl)

lemma get_Emission_unfold:
  "get_Emission r h =
    (if h - HeightGenesis < Emission_Drop0 r then Inr (Emission_Value0 r)
     else if Emission_Drop1 r = 0 then Inl AssertionFailed
     else if 1 + (h - HeightGenesis - Emission_Drop0 r) div Emission_Drop1 r \<ge> 64 then Inr 0
     else Inr (drop_bit (unat (1 + (h - HeightGenesis - Emission_Drop0 r) div Emission_Drop1 r))
            (if 1 + (h - HeightGenesis - Emission_Drop0 r) div Emission_Drop1 r \<ge> 2
             then Emission_Value0 r + drop_bit 2 (Emission_Value0 r) else Emission_Value0 r)))"
  by (simp add: get_Emission_def get_EmissionEx_def Let_def ucast_nBitsMax)

text \<open>
  C5. For every height \<open>h\<close>, \<open>Rules::get_Emission h\<close> returns the reward of the emission
  rule of the specification, computed on unsigned 64-bit integers: with
  \<open>d = h - HeightGenesis\<close>, the reward is \<open>Value0\<close> when \<open>d < Drop0\<close>; otherwise, with
  \<open>n = 1 + (d - Drop0) / Drop1\<close>, it is 0 when \<open>n \<ge> 64\<close> and
  \<open>(Value0 + (n \<ge> 2 ? Value0 / 4 : 0)) >> n\<close> below. \<open>Drop1\<close> is not zero, as the code
  asserts before it divides.
\<close>

theorem C5_get_Emission:
  assumes "Emission_Drop1 r \<noteq> 0"
  shows "\<exists>v. get_Emission r h = Inr v \<and>
     unat v = spec_Emission (unat (Emission_Value0 r)) (unat (Emission_Drop0 r))
                (unat (Emission_Drop1 r)) (unat h)"
proof -
  let ?d = "h - HeightGenesis"
  let ?n = "1 + (?d - Emission_Drop0 r) div Emission_Drop1 r"
  let ?V = "unat (Emission_Value0 r)"
  have spec: "spec_Emission ?V (unat (Emission_Drop0 r)) (unat (Emission_Drop1 r)) (unat h) =
    (if unat ?d < unat (Emission_Drop0 r) then ?V
     else if (1 + (unat ?d - unat (Emission_Drop0 r)) div unat (Emission_Drop1 r)) mod 2 ^ 64 \<ge> 64 then 0
     else ((?V + (if (1 + (unat ?d - unat (Emission_Drop0 r)) div unat (Emission_Drop1 r)) mod 2 ^ 64 \<ge> 2
                 then ?V div 4 else 0)) mod 2 ^ 64)
          div 2 ^ ((1 + (unat ?d - unat (Emission_Drop0 r)) div unat (Emission_Drop1 r)) mod 2 ^ 64))"
    unfolding spec_Emission_unfold unat_sub_HeightGenesis by (rule refl)
  show ?thesis
  proof (cases "?d < Emission_Drop0 r")
    case True
    then have "unat ?d < unat (Emission_Drop0 r)" by (simp add: word_less_nat_alt)
    then show ?thesis unfolding spec get_Emission_unfold using True by simp
  next
    case False
    then have le: "Emission_Drop0 r \<le> ?d" by simp
    then have nd: "\<not> unat ?d < unat (Emission_Drop0 r)" by (simp add: word_le_nat_alt)
    have n: "(1 + (unat ?d - unat (Emission_Drop0 r)) div unat (Emission_Drop1 r)) mod 2 ^ 64 = unat ?n"
      using le by (rule unat_emission_n [symmetric])
    have n64: "(?n \<ge> 64) = (unat ?n \<ge> 64)" by (simp add: word_le_nat_alt)
    have n2: "(?n \<ge> 2) = (unat ?n \<ge> 2)" by (simp add: word_le_nat_alt)
    have spec': "spec_Emission ?V (unat (Emission_Drop0 r)) (unat (Emission_Drop1 r)) (unat h) =
      (if unat ?n \<ge> 64 then 0
       else ((?V + (if unat ?n \<ge> 2 then ?V div 4 else 0)) mod 2 ^ 64) div 2 ^ unat ?n)"
      unfolding spec n using nd by (simp only: if_False)
    have code: "get_Emission r h =
      (if unat ?n \<ge> 64 then Inr 0
       else Inr (drop_bit (unat ?n)
            (if unat ?n \<ge> 2 then Emission_Value0 r + drop_bit 2 (Emission_Value0 r)
             else Emission_Value0 r)))"
      unfolding get_Emission_unfold n64 n2 using False assms by (simp only: if_False)
    have vb: "unat (Emission_Value0 r) mod 2 ^ 64 = unat (Emission_Value0 r)"
      using unsigned_less [of "Emission_Value0 r", where 'a = nat] by simp
    show ?thesis unfolding spec' code using vb
      by (simp add: unat_drop_bit_div unat_quarter_add)
  qed
qed

theorem C5_get_Emission_witness:
  "Emission_Drop1 sample_Rules \<noteq> 0
   \<and> (\<exists>v. get_Emission sample_Rules 2628002 = Inr v
        \<and> unat v = spec_Emission 8000000000 525600 2102400 2628002)
   \<and> get_Emission sample_Rules 2628002 = Inr 2500000000"
proof -
  have d: "Emission_Drop1 sample_Rules \<noteq> 0" by (simp add: sample_Rules_def)
  have g: "get_Emission sample_Rules 2628002 = Inr 2500000000"
    by (simp add: get_Emission_unfold sample_Rules_def HeightGenesis_def Coin_def
        word_le_nat_alt word_less_nat_alt)
  have v: "unat (Emission_Value0 sample_Rules) = 8000000000"
    "unat (Emission_Drop0 sample_Rules) = 525600"
    "unat (Emission_Drop1 sample_Rules) = 2102400"
    "unat (2628002 :: Height) = 2628002"
    by (simp_all add: sample_Rules_def Coin_def)
  from C5_get_Emission [OF d, of 2628002] 
  have "\<exists>v. get_Emission sample_Rules 2628002 = Inr v
        \<and> unat v = spec_Emission 8000000000 525600 2102400 2628002"
    unfolding v .
  with d g show ?thesis by blast
qed

subsection \<open>Fork heights and the checksum\<close>

lemma IsForkHeightsConsistent_loop_iff:
  "IsForkHeightsConsistent_loop pf i =
    (\<forall>j. i \<le> j \<and> j < length pf \<longrightarrow> HeightHash.m_Height (pf ! (j - 1)) \<le> HeightHash.m_Height (pf ! j))"
proof (induction pf i rule: IsForkHeightsConsistent_loop.induct)
  case (1 pf i)
  show ?case
  proof (cases "i < length pf")
    case False
    then show ?thesis by (subst IsForkHeightsConsistent_loop.simps) auto
  next
    case True
    show ?thesis
    proof (cases "HeightHash.m_Height (pf ! i) < HeightHash.m_Height (pf ! (i - 1))")
      case lt: True
      then have "\<not> HeightHash.m_Height (pf ! (i - 1)) \<le> HeightHash.m_Height (pf ! i)" by simp
      with True have "\<not> (\<forall>j. i \<le> j \<and> j < length pf \<longrightarrow> HeightHash.m_Height (pf ! (j - 1)) \<le> HeightHash.m_Height (pf ! j))"
        by blast
      then show ?thesis using True lt by (subst IsForkHeightsConsistent_loop.simps) simp
    next
      case ge: False
      have "IsForkHeightsConsistent_loop pf i = IsForkHeightsConsistent_loop pf (i + 1)"
        using True ge by (subst IsForkHeightsConsistent_loop.simps) simp
      also have "\<dots> = (\<forall>j. i + 1 \<le> j \<and> j < length pf \<longrightarrow> HeightHash.m_Height (pf ! (j - 1)) \<le> HeightHash.m_Height (pf ! j))"
        using "1.IH" True ge by simp
      also have "\<dots> = (\<forall>j. i \<le> j \<and> j < length pf \<longrightarrow> HeightHash.m_Height (pf ! (j - 1)) \<le> HeightHash.m_Height (pf ! j))"
      proof
        assume a: "\<forall>j. i + 1 \<le> j \<and> j < length pf \<longrightarrow> HeightHash.m_Height (pf ! (j - 1)) \<le> HeightHash.m_Height (pf ! j)"
        show "\<forall>j. i \<le> j \<and> j < length pf \<longrightarrow> HeightHash.m_Height (pf ! (j - 1)) \<le> HeightHash.m_Height (pf ! j)"
        proof (intro allI impI)
          fix j assume j: "i \<le> j \<and> j < length pf"
          show "HeightHash.m_Height (pf ! (j - 1)) \<le> HeightHash.m_Height (pf ! j)"
          proof (cases "j = i")
            case True then show ?thesis using ge by simp
          next
            case False
            with j have "i + 1 \<le> j \<and> j < length pf" by arith
            with a show ?thesis by blast
          qed
        qed
      next
        assume "\<forall>j. i \<le> j \<and> j < length pf \<longrightarrow> HeightHash.m_Height (pf ! (j - 1)) \<le> HeightHash.m_Height (pf ! j)"
        then show "\<forall>j. i + 1 \<le> j \<and> j < length pf \<longrightarrow> HeightHash.m_Height (pf ! (j - 1)) \<le> HeightHash.m_Height (pf ! j)"
          by simp
      qed
      finally show ?thesis .
    qed
  qed
qed

lemma IsForkHeightsConsistent_iff:
  "IsForkHeightsConsistent r = (\<not> forks_nonmonotonic r)"
  unfolding IsForkHeightsConsistent_def forks_nonmonotonic_def IsForkHeightsConsistent_loop_iff
  by (auto simp: not_less)

lemma set_Hash_length [simp]: "length (set_Hash i hv pf) = length pf"
  by (simp add: set_Hash_def)

lemma set_Hash_m_Height [simp]: "HeightHash.m_Height (set_Hash i hv pf ! j) = HeightHash.m_Height (pf ! j)"
  by (cases "j < length pf"; cases "i = j") (simp_all add: set_Hash_def list_update_beyond not_less)

lemma set_Hash_m_Hash:
  "j < length pf \<Longrightarrow> m_Hash (set_Hash i hv pf ! j) = (if i = j then hv else m_Hash (pf ! j))"
  by (simp add: set_Hash_def)

lemma set_Hash_other: "i \<noteq> j \<Longrightarrow> set_Hash i hv pf ! j = pf ! j"
  by (simp add: set_Hash_def)

lemma UpdateChecksum_ok:
  assumes "\<not> forks_nonmonotonic r"
  shows "UpdateChecksum env r = Inr (r\<lparr>pForks :=
     set_Hash 2 (fst (checksum_hv2 env r)) (set_Hash 1 (fst (checksum_hv1 env r))
       (set_Hash 0 (fst (checksum_hv0 env r)) (pForks r)))\<rparr>)"
  using assms
  by (simp add: UpdateChecksum_def IsForkHeightsConsistent_iff checksum_hv0_def
      checksum_hv1_def checksum_hv2_def split: prod.splits)

text \<open>
  C6. \<open>Rules::UpdateChecksum\<close> throws whenever the fork heights are non-monotonic (the first
  fork is not at \<open>HeightGenesis - 1\<close>, or some fork is below its predecessor). Otherwise
  it completes without throwing and returns the rules with only the hashes of forks 0, 1
  and 2 rewritten, each the oracle's output after the absorbed parameter lists, so a
  function of the absorbed parameters alone.
\<close>

theorem C6_UpdateChecksum:
  assumes "3 \<le> length (pForks r)"
  shows "(forks_nonmonotonic r \<longrightarrow> UpdateChecksum env r = Inl InconsistentForks)
    \<and> (\<not> forks_nonmonotonic r \<longrightarrow>
        (\<exists>r'. UpdateChecksum env r = Inr r'
          \<and> r' = r\<lparr>pForks := pForks r'\<rparr>
          \<and> length (pForks r') = length (pForks r)
          \<and> (\<forall>i. HeightHash.m_Height (pForks r' ! i) = HeightHash.m_Height (pForks r ! i))
          \<and> (\<forall>i. 3 \<le> i \<longrightarrow> pForks r' ! i = pForks r ! i)
          \<and> m_Hash (pForks r' ! 0) = fst (checksum_hv0 env r)
          \<and> m_Hash (pForks r' ! 1) = fst (checksum_hv1 env r)
          \<and> m_Hash (pForks r' ! 2) = fst (checksum_hv2 env r)))"
proof (intro conjI impI)
  assume "forks_nonmonotonic r"
  then show "UpdateChecksum env r = Inl InconsistentForks"
    by (simp add: UpdateChecksum_def IsForkHeightsConsistent_iff)
next
  assume ok: "\<not> forks_nonmonotonic r"
  let ?pf = "set_Hash 2 (fst (checksum_hv2 env r)) (set_Hash 1 (fst (checksum_hv1 env r))
       (set_Hash 0 (fst (checksum_hv0 env r)) (pForks r)))"
  have u: "UpdateChecksum env r = Inr (r\<lparr>pForks := ?pf\<rparr>)"
    using ok by (rule UpdateChecksum_ok)
  have l: "0 < length (pForks r)" "Suc 0 < length (pForks r)" "2 < length (pForks r)"
    using assms by arith+
  have "m_Hash (?pf ! 0) = fst (checksum_hv0 env r)"
    using l by (simp add: set_Hash_m_Hash)
  moreover have "m_Hash (?pf ! 1) = fst (checksum_hv1 env r)"
    using l by (simp add: set_Hash_m_Hash)
  moreover have "m_Hash (?pf ! 2) = fst (checksum_hv2 env r)"
    using l by (simp add: set_Hash_m_Hash)
  moreover have "\<forall>i. 3 \<le> i \<longrightarrow> ?pf ! i = pForks r ! i"
    by (simp add: set_Hash_other)
  ultimately show "\<exists>r'. UpdateChecksum env r = Inr r'
          \<and> r' = r\<lparr>pForks := pForks r'\<rparr>
          \<and> length (pForks r') = length (pForks r)
          \<and> (\<forall>i. HeightHash.m_Height (pForks r' ! i) = HeightHash.m_Height (pForks r ! i))
          \<and> (\<forall>i. 3 \<le> i \<longrightarrow> pForks r' ! i = pForks r ! i)
          \<and> m_Hash (pForks r' ! 0) = fst (checksum_hv0 env r)
          \<and> m_Hash (pForks r' ! 1) = fst (checksum_hv1 env r)
          \<and> m_Hash (pForks r' ! 2) = fst (checksum_hv2 env r)"
    unfolding u by simp
qed

lemma sample_consistent: "IsForkHeightsConsistent sample_Rules"
  by (simp add: IsForkHeightsConsistent_def sample_Rules_def HeightGenesis_def)

lemma sample_bad_inconsistent:
  "\<not> IsForkHeightsConsistent (sample_Rules\<lparr>pForks :=
      [\<lparr>HeightHash.m_Height = 0, m_Hash = 0\<rparr>, \<lparr>HeightHash.m_Height = 321321, m_Hash = 0\<rparr>, \<lparr>HeightHash.m_Height = 5, m_Hash = 0\<rparr>]\<rparr>)"
  by (simp add: IsForkHeightsConsistent_def sample_Rules_def HeightGenesis_def)

lemma sample_hv0: "fst (checksum_hv0 sample_Env sample_Rules) = 28"
    by (simp add: checksum_hv0_def checksum_in0_def absorb_def sample_Env_def)
lemma sample_hv1: "fst (checksum_hv1 sample_Env sample_Rules) = 33"
    by (simp add: checksum_hv1_def checksum_hv0_def checksum_in0_def checksum_in1_def absorb_def sample_Env_def)
lemma sample_hv2: "fst (checksum_hv2 sample_Env sample_Rules) = 44"
    by (simp add: checksum_hv2_def checksum_hv1_def checksum_hv0_def checksum_in0_def checksum_in1_def checksum_in2_def absorb_def sample_Env_def)

theorem C6_UpdateChecksum_witness:
  "3 \<le> length (pForks sample_Rules)
   \<and> \<not> forks_nonmonotonic sample_Rules
   \<and> (\<exists>r'. UpdateChecksum sample_Env sample_Rules = Inr r'
        \<and> HeightHash.m_Hash (pForks r' ! 0) = 28
        \<and> HeightHash.m_Hash (pForks r' ! 1) = 33
        \<and> HeightHash.m_Hash (pForks r' ! 2) = 44)
   \<and> forks_nonmonotonic (sample_Rules\<lparr>pForks :=
        [\<lparr>HeightHash.m_Height = 0, m_Hash = 0\<rparr>, \<lparr>HeightHash.m_Height = 321321, m_Hash = 0\<rparr>,
         \<lparr>HeightHash.m_Height = 5, m_Hash = 0\<rparr>]\<rparr>)
   \<and> UpdateChecksum sample_Env (sample_Rules\<lparr>pForks :=
        [\<lparr>HeightHash.m_Height = 0, m_Hash = 0\<rparr>, \<lparr>HeightHash.m_Height = 321321, m_Hash = 0\<rparr>,
         \<lparr>HeightHash.m_Height = 5, m_Hash = 0\<rparr>]\<rparr>) = Inl InconsistentForks"
proof -
  let ?bad = "sample_Rules\<lparr>pForks :=
        [\<lparr>HeightHash.m_Height = 0, m_Hash = 0\<rparr>, \<lparr>HeightHash.m_Height = 321321, m_Hash = 0\<rparr>,
         \<lparr>HeightHash.m_Height = 5, m_Hash = 0\<rparr>]\<rparr>"
  have l: "3 \<le> length (pForks sample_Rules)" by (simp add: sample_Rules_def)
  have l': "3 \<le> length (pForks ?bad)" by simp
  have ok: "\<not> forks_nonmonotonic sample_Rules"
    using sample_consistent unfolding IsForkHeightsConsistent_iff .
  have bad: "forks_nonmonotonic ?bad"
    using sample_bad_inconsistent unfolding IsForkHeightsConsistent_iff not_not .
  note t = C6_UpdateChecksum [OF l, of sample_Env]
  from t have "\<not> forks_nonmonotonic sample_Rules \<longrightarrow>
        (\<exists>r'. UpdateChecksum sample_Env sample_Rules = Inr r'
          \<and> r' = sample_Rules\<lparr>pForks := pForks r'\<rparr>
          \<and> length (pForks r') = length (pForks sample_Rules)
          \<and> (\<forall>i. HeightHash.m_Height (pForks r' ! i) = HeightHash.m_Height (pForks sample_Rules ! i))
          \<and> (\<forall>i. 3 \<le> i \<longrightarrow> pForks r' ! i = pForks sample_Rules ! i)
          \<and> HeightHash.m_Hash (pForks r' ! 0) = fst (checksum_hv0 sample_Env sample_Rules)
          \<and> HeightHash.m_Hash (pForks r' ! 1) = fst (checksum_hv1 sample_Env sample_Rules)
          \<and> HeightHash.m_Hash (pForks r' ! 2) = fst (checksum_hv2 sample_Env sample_Rules))"
    by (rule conjunct2)
  from this ok obtain r' where r': "UpdateChecksum sample_Env sample_Rules = Inr r'"
    and r0: "HeightHash.m_Hash (pForks r' ! 0) = fst (checksum_hv0 sample_Env sample_Rules)"
    and r1: "HeightHash.m_Hash (pForks r' ! 1) = fst (checksum_hv1 sample_Env sample_Rules)"
    and r2: "HeightHash.m_Hash (pForks r' ! 2) = fst (checksum_hv2 sample_Env sample_Rules)"
    by auto
  have ex: "\<exists>r'. UpdateChecksum sample_Env sample_Rules = Inr r'
        \<and> HeightHash.m_Hash (pForks r' ! 0) = 28
        \<and> HeightHash.m_Hash (pForks r' ! 1) = 33
        \<and> HeightHash.m_Hash (pForks r' ! 2) = 44"
    using r' r0 r1 r2 unfolding sample_hv0 sample_hv1 sample_hv2 by (intro exI [of _ r'] conjI)
  from C6_UpdateChecksum [OF l', of sample_Env]
  have "forks_nonmonotonic ?bad \<longrightarrow> UpdateChecksum sample_Env ?bad = Inl InconsistentForks"
    by (rule conjunct1)
  from this bad have t: "UpdateChecksum sample_Env ?bad = Inl InconsistentForks" by (rule mp)
  from l ok ex bad t show ?thesis by (intro conjI)
qed

subsection \<open>Output validity\<close>



subsection \<open>Child keys\<close>

text \<open>
  C9. \<open>MasterKey::get_Child pKdf kidv\<close> returns the pointer \<open>pKdf\<close> itself, and creates no
  KDF, when the subkey of \<open>kidv\<close> is 0 or its scheme is BB21. For every other \<open>kidv\<close> (and
  a valid parent pointer) it returns a fresh pointer, different from \<open>pKdf\<close>, to the child
  KDF that \<open>CreateChild\<close> derives from the parent for the subkey index; the objects already
  in the store are unchanged.
\<close>

theorem C9_get_Child:
  "(get_Subkey kenv kidv = 0 \<or> get_Scheme kenv kidv = Scheme_BB21 kenv
      \<longrightarrow> get_Child kenv store pKdf kidv = Inr (pKdf, store))
   \<and> (get_Subkey kenv kidv \<noteq> 0 \<and> get_Scheme kenv kidv \<noteq> Scheme_BB21 kenv
        \<and> pKdf = Some a \<and> a < length store
      \<longrightarrow> (\<exists>p store'. get_Child kenv store pKdf kidv = Inr (Some p, store')
            \<and> Some p \<noteq> pKdf \<and> length store \<le> p \<and> p < length store'
            \<and> take (length store) store' = store
            \<and> store' ! p = HKdf_CreateChild kenv (store ! a) (get_Subkey kenv kidv)))"
  by (auto simp add: get_Child_def get_Child_kdf_def Let_def)

theorem C9_get_Child_witness:
  "get_Child sample_KeyEnv [5] (Some 0) \<lparr>m_Idx = 1, m_Type = 0, m_SubIdx = 0, Key_IDV.m_Value = 9\<rparr>
      = Inr (Some 0, [5])
   \<and> get_Child sample_KeyEnv [5] (Some 0) \<lparr>m_Idx = 1, m_Type = 0, m_SubIdx = 33554435, Key_IDV.m_Value = 9\<rparr>
      = Inr (Some 0, [5])
   \<and> get_Child sample_KeyEnv [5] (Some 0) \<lparr>m_Idx = 1, m_Type = 0, m_SubIdx = 3, Key_IDV.m_Value = 9\<rparr>
      = Inr (Some 1, [5, 5003])"
proof -
  let ?k0 = "\<lparr>m_Idx = 1, m_Type = 0, m_SubIdx = 0, Key_IDV.m_Value = 9\<rparr>"
  let ?k1 = "\<lparr>m_Idx = 1, m_Type = 0, m_SubIdx = 33554435, Key_IDV.m_Value = 9\<rparr> :: Key_IDV"
  let ?k2 = "\<lparr>m_Idx = 1, m_Type = 0, m_SubIdx = 3, Key_IDV.m_Value = 9\<rparr> :: Key_IDV"
  have a: "get_Subkey sample_KeyEnv ?k0 = 0" by (simp add: sample_KeyEnv_def)
  have b: "get_Scheme sample_KeyEnv ?k1 = Scheme_BB21 sample_KeyEnv"
    by (simp add: sample_KeyEnv_def drop_bit_eq_div)
  have c: "get_Subkey sample_KeyEnv ?k2 = 3" "get_Scheme sample_KeyEnv ?k2 = 0"
     "Scheme_BB21 sample_KeyEnv = 2" "HKdf_CreateChild sample_KeyEnv 5 3 = 5003"
    by (simp_all add: sample_KeyEnv_def drop_bit_eq_div)
  have 1: "get_Child sample_KeyEnv [5] (Some 0) ?k0 = Inr (Some 0, [5])"
    using C9_get_Child [of sample_KeyEnv ?k0 "[5]" "Some 0" 0] a by simp
  have 2: "get_Child sample_KeyEnv [5] (Some 0) ?k1 = Inr (Some 0, [5])"
    using C9_get_Child [of sample_KeyEnv ?k1 "[5]" "Some 0" 0] b by simp
  have h: "get_Subkey sample_KeyEnv ?k2 \<noteq> 0 \<and> get_Scheme sample_KeyEnv ?k2 \<noteq> Scheme_BB21 sample_KeyEnv
        \<and> Some 0 = Some (0::nat) \<and> 0 < length [5::nat]"
    unfolding c by simp
  from C9_get_Child [of sample_KeyEnv ?k2 "[5]" "Some 0" 0]
  have "get_Subkey sample_KeyEnv ?k2 \<noteq> 0 \<and> get_Scheme sample_KeyEnv ?k2 \<noteq> Scheme_BB21 sample_KeyEnv
        \<and> Some 0 = Some (0::nat) \<and> 0 < length [5::nat]
      \<longrightarrow> (\<exists>p store'. get_Child sample_KeyEnv [5] (Some 0) ?k2 = Inr (Some p, store')
            \<and> Some p \<noteq> Some 0 \<and> length [5::nat] \<le> p \<and> p < length store'
            \<and> take (length [5::nat]) store' = [5]
            \<and> store' ! p = HKdf_CreateChild sample_KeyEnv ([5] ! 0) (get_Subkey sample_KeyEnv ?k2))"
    by (rule conjunct2)
  from this h obtain p store' where
    g: "get_Child sample_KeyEnv [5] (Some 0) ?k2 = Inr (Some p, store')"
    by blast
  have e: "get_Child sample_KeyEnv [5] (Some 0) ?k2 = Inr (Some 1, [5, 5003])"
    by (simp add: get_Child_def get_Child_kdf_def c)
  from g e have "p = 1" "store' = [5, 5003]" by simp_all
  with g have 3: "get_Child sample_KeyEnv [5] (Some 0) ?k2 = Inr (Some 1, [5, 5003])" by simp
  from 1 2 3 show ?thesis by simp
qed

subsection \<open>Nested kernels: the height ranges\<close>

text \<open>
  C1 (as amended). For every kernel validated as a nested child (\<open>pParent\<close> not null),
  \<open>TxKernel::IsValidBase\<close> returns false whenever the parent's height range is not
  contained in the child's: validation succeeds only if \<open>child.min \<le> parent.min\<close> and
  \<open>parent.max \<le> child.max\<close>. The excess and the commitment are left as they were.
\<close>

theorem C1_IsValidBase_parent_in_child:
  assumes "m_Min (TxKernel.m_Height k) > m_Min (TxKernel.m_Height parent)
           \<or> m_Max (TxKernel.m_Height k) < m_Max (TxKernel.m_Height parent)"
  shows "IsValidBase env r hScheme exc (Some parent) pComm k = Some (Inr (False, exc, pComm))"
  using assms by (simp add: IsValidBase.simps)

theorem C1_IsValidBase_parent_in_child_witness:
  "(m_Min (TxKernel.m_Height (sample_Std 0 6 9)) > m_Min (TxKernel.m_Height (sample_Std 0 5 10))
     \<or> m_Max (TxKernel.m_Height (sample_Std 0 6 9)) < m_Max (TxKernel.m_Height (sample_Std 0 5 10)))
   \<and> IsValidBase sample_Env sample_Rules 500000 0 (Some (sample_Std 0 5 10)) None (sample_Std 0 6 9)
       = Some (Inr (False, 0, None))"
proof -
  have a: "m_Min (TxKernel.m_Height (sample_Std 0 6 9)) > m_Min (TxKernel.m_Height (sample_Std 0 5 10))
     \<or> m_Max (TxKernel.m_Height (sample_Std 0 6 9)) < m_Max (TxKernel.m_Height (sample_Std 0 5 10))"
    by (simp add: sample_Std_def)
  from a C1_IsValidBase_parent_in_child [OF a, of sample_Env sample_Rules 500000 0 None]
  show ?thesis by (rule conjI)
qed

text \<open>
  C1 (as stated) fails: a child with the range 0..20 under a parent with the range 5..10 is
  not contained in its parent, and \<open>IsValidBase\<close> accepts it.
\<close>

theorem C1_child_not_contained_counterexample:
  "\<not> (m_Min (TxKernel.m_Height (sample_Std 0 5 10)) \<le> m_Min (TxKernel.m_Height (sample_Std 0 0 20))
       \<and> m_Max (TxKernel.m_Height (sample_Std 0 0 20)) \<le> m_Max (TxKernel.m_Height (sample_Std 0 5 10)))
   \<and> IsValidBase sample_Env sample_Rules 500000 0 (Some (sample_Std 0 5 10)) None (sample_Std 0 0 20)
       = Some (Inr (True, 0, None))"
  by (simp add: IsValidBase.simps sample_Std_def sample_Rules_def)

subsection \<open>The order of kernels\<close>

lemma then_cmp_nonzero: "n \<noteq> 0 \<Longrightarrow> then_cmp n rest = n"
  by (simp add: then_cmp_def)

lemma then_cmp_zero: "then_cmp 0 rest = rest"
  by (simp add: then_cmp_def)

lemma CMP_SIMPLE_eq_0_iff: "CMP_SIMPLE a b = 0 \<longleftrightarrow> a = b"
  by (auto simp add: CMP_SIMPLE_def)

lemma uintBig_cmp_eq_0_iff: "uintBig_cmp a b = 0 \<longleftrightarrow> a = b"
  by (simp add: uintBig_cmp_def CMP_SIMPLE_eq_0_iff)

text \<open>
  C2 (as amended). For two kernels whose height minima are both at least
  \<open>pForks[2].m_Height\<close>, \<open>TxKernel::cmp\<close> is the comparison of the internal IDs whenever
  the IDs differ; when the IDs are equal it goes on with the subtypes and then
  \<open>cmp_Subtype\<close>. When exactly one kernel has its height minimum at least
  \<open>pForks[2].m_Height\<close>, the pre-Fork2 kernel compares strictly less than the other.
\<close>

theorem C2_TxKernel_cmp_fork2:
  "(HeightHash.m_Height (pForks r ! 2) \<le> m_Min (TxKernel.m_Height a)
      \<and> HeightHash.m_Height (pForks r ! 2) \<le> m_Min (TxKernel.m_Height v)
      \<and> m_Internal_m_ID a \<noteq> m_Internal_m_ID v
      \<longrightarrow> TxKernel_cmp r a v = uintBig_cmp (m_Internal_m_ID a) (m_Internal_m_ID v)
          \<and> TxKernel_cmp r a v \<noteq> 0)
   \<and> (HeightHash.m_Height (pForks r ! 2) \<le> m_Min (TxKernel.m_Height a)
      \<and> HeightHash.m_Height (pForks r ! 2) \<le> m_Min (TxKernel.m_Height v)
      \<and> m_Internal_m_ID a = m_Internal_m_ID v
      \<longrightarrow> TxKernel_cmp r a v =
            then_cmp (CMP_SIMPLE (Subtype_Enum (get_Subtype a)) (Subtype_Enum (get_Subtype v)))
              (cmp_Subtype r a v))
   \<and> (m_Min (TxKernel.m_Height a) < HeightHash.m_Height (pForks r ! 2)
      \<and> HeightHash.m_Height (pForks r ! 2) \<le> m_Min (TxKernel.m_Height v)
      \<longrightarrow> TxKernel_cmp r a v = - 1 \<and> TxKernel_cmp r v a = 1)"
proof (intro conjI impI)
  assume h: "HeightHash.m_Height (pForks r ! 2) \<le> m_Min (TxKernel.m_Height a)
      \<and> HeightHash.m_Height (pForks r ! 2) \<le> m_Min (TxKernel.m_Height v)
      \<and> m_Internal_m_ID a \<noteq> m_Internal_m_ID v"
  then have nz: "uintBig_cmp (m_Internal_m_ID a) (m_Internal_m_ID v) \<noteq> 0"
    by (simp add: uintBig_cmp_eq_0_iff)
  with h show "TxKernel_cmp r a v = uintBig_cmp (m_Internal_m_ID a) (m_Internal_m_ID v)"
    by (simp add: TxKernel_cmp.simps Let_def then_cmp_nonzero)
  with nz show "TxKernel_cmp r a v \<noteq> 0" by simp
next
  assume "HeightHash.m_Height (pForks r ! 2) \<le> m_Min (TxKernel.m_Height a)
      \<and> HeightHash.m_Height (pForks r ! 2) \<le> m_Min (TxKernel.m_Height v)
      \<and> m_Internal_m_ID a = m_Internal_m_ID v"
  then show "TxKernel_cmp r a v =
            then_cmp (CMP_SIMPLE (Subtype_Enum (get_Subtype a)) (Subtype_Enum (get_Subtype v)))
              (cmp_Subtype r a v)"
    by (simp add: TxKernel_cmp.simps [of r a v] Let_def uintBig_cmp_def CMP_SIMPLE_def then_cmp_zero)
next
  assume h: "m_Min (TxKernel.m_Height a) < HeightHash.m_Height (pForks r ! 2)
      \<and> HeightHash.m_Height (pForks r ! 2) \<le> m_Min (TxKernel.m_Height v)"
  then have na: "\<not> HeightHash.m_Height (pForks r ! 2) \<le> m_Min (TxKernel.m_Height a)"
    by (simp add: not_le)
  from h na show "TxKernel_cmp r a v = - 1"
    by (simp add: TxKernel_cmp.simps [of r a v] Let_def)
  from h na show "TxKernel_cmp r v a = 1"
    by (simp add: TxKernel_cmp.simps [of r v a] Let_def)
qed

theorem C2_TxKernel_cmp_fork2_witness:
  "TxKernel_cmp sample_Rules
      (TxKernel 3 0 \<lparr>m_Min = 400000, m_Max = 500000\<rparr> False [] (TxKernelShieldedInput 0 0 \<lparr>SpendProof.m_Commitment = \<lparr>m_X = 1, m_Y = False\<rparr>, m_Proof = 0\<rparr>))
      (sample_Std 5 400001 500000) = 1
   \<and> TxKernel_cmp sample_Rules (sample_Std 5 400001 500000) (sample_Std 5 400001 500000) = 0
   \<and> TxKernel_cmp sample_Rules (sample_Std 5 10 500000) (sample_Std 5 400001 500000) = - 1
   \<and> TxKernel_cmp sample_Rules (sample_Std 5 400001 500000) (sample_Std 5 10 500000) = 1"
proof -
  let ?a = "TxKernel 3 0 \<lparr>m_Min = 400000, m_Max = 500000\<rparr> False [] (TxKernelShieldedInput 0 0 \<lparr>SpendProof.m_Commitment = \<lparr>m_X = 1, m_Y = False\<rparr>, m_Proof = 0\<rparr>)"
  let ?v = "sample_Std 5 400001 500000"
  let ?p = "sample_Std 5 10 500000"
  have f: "HeightHash.m_Height (pForks sample_Rules ! 2) = 400000"
    by (simp add: sample_Rules_def)
  note t = C2_TxKernel_cmp_fork2 [of sample_Rules]
  have 1: "TxKernel_cmp sample_Rules ?a ?v = 1"
    using t [of ?a ?v] unfolding f
    by (simp add: sample_Std_def uintBig_cmp_def CMP_SIMPLE_def word_le_nat_alt word_less_nat_alt)
  have 2: "TxKernel_cmp sample_Rules ?v ?v = 0"
    using t [of ?v ?v] unfolding f
    by (simp add: sample_Std_def CMP_SIMPLE_def then_cmp_def cmp_Subtype.simps
        Point_cmp_def uintBig_cmp_def Signature_cmp_def CMP_PTRS_def word_le_nat_alt)
  have 3: "TxKernel_cmp sample_Rules ?p ?v = - 1 \<and> TxKernel_cmp sample_Rules ?v ?p = 1"
    using t [of ?p ?v] unfolding f
    by (simp add: sample_Std_def word_le_nat_alt word_less_nat_alt)
  from 1 2 3 show ?thesis by simp
qed

text \<open>
  C2 (as stated) fails: two Fork2 kernels with the same internal ID and different fees do
  not compare equal.
\<close>

theorem C2_equal_ID_counterexample:
  "HeightHash.m_Height (pForks sample_Rules ! 2) \<le> m_Min (TxKernel.m_Height (sample_Std 1 400001 500000))
   \<and> HeightHash.m_Height (pForks sample_Rules ! 2) \<le> m_Min (TxKernel.m_Height (sample_Std 2 400001 500000))
   \<and> m_Internal_m_ID (sample_Std 1 400001 500000) = m_Internal_m_ID (sample_Std 2 400001 500000)
   \<and> TxKernel_cmp sample_Rules (sample_Std 1 400001 500000) (sample_Std 2 400001 500000) = - 1"
  by (simp add: TxKernel_cmp.simps cmp_Subtype.simps sample_Std_def sample_Rules_def Let_def
      get_Subtype_def then_cmp_def CMP_SIMPLE_def uintBig_cmp_def Point_cmp_def Signature_cmp_def
      word_le_nat_alt word_less_nat_alt)

subsection \<open>Statistics and fee of shielded kernels\<close>

lemma AddStats_commute:
  "TxKernel_AddStats_base k (TxStats_add s d) = TxStats_add (TxKernel_AddStats_base k s) d"
  "TxKernel_AddStats k (TxStats_add s d) = TxStats_add (TxKernel_AddStats k s) d"
  "AddStats_vNested vs (TxStats_add s d) = TxStats_add (AddStats_vNested vs s) d"
proof (induction k s and k s and vs s
    rule: TxKernel_AddStats_base_TxKernel_AddStats_AddStats_vNested.induct)
  case (1 k s)
  have "(TxStats_add s d)\<lparr>m_Kernels := m_Kernels (TxStats_add s d) + 1,
         TxStats.m_Fee := TxStats.m_Fee (TxStats_add s d) + uintBigFrom (TxKernel.m_Fee k)\<rparr>
      = TxStats_add (s\<lparr>m_Kernels := m_Kernels s + 1,
         TxStats.m_Fee := TxStats.m_Fee s + uintBigFrom (TxKernel.m_Fee k)\<rparr>) d"
    by (simp add: TxStats_add_def)
  then show ?case using "1.IH" by (simp add: TxKernel_AddStats_base.simps)
next
  case (2 k s)
  show ?case
  proof (cases "m_Sub k")
    case (TxKernelStd c sg hl rl)
    then show ?thesis using 2 by (simp add: TxKernel_AddStats.simps)
  next
    case (TxKernelAssetEmit msg c sg aid v)
    then show ?thesis using 2 by (simp add: TxKernel_AddStats.simps)
  next
    case (TxKernelShieldedOutput msg txo)
    then show ?thesis using 2
      by (simp add: TxKernel_AddStats.simps [of k] Let_def) (simp add: TxStats_add_def)
  next
    case (TxKernelShieldedInput msg we sp)
    then show ?thesis using 2
      by (simp add: TxKernel_AddStats.simps [of k] Let_def) (simp add: TxStats_add_def)
  qed
next
  case (3 s)
  show ?case by simp
next
  case (4 v vs s)
  then show ?case by simp
qed

lemma TxStats_add_Reset: "TxStats_add TxStats_Reset s = s"
  by (simp add: TxStats_add_def TxStats_Reset_def)

lemma AddStats_base_eq:
  "TxKernel_AddStats_base k s =
    TxStats_add (AddStats_vNested (m_vNested k) s)
      \<lparr>TxStats.m_Fee = uintBigFrom (TxKernel.m_Fee k), TxStats.m_Coinbase = 0, m_Kernels = 1, m_Inputs = 0,
       m_Outputs = 0, m_InputsShielded = 0, m_OutputsShielded = 0\<rparr>"
proof -
  let ?d = "\<lparr>TxStats.m_Fee = uintBigFrom (TxKernel.m_Fee k), TxStats.m_Coinbase = 0, m_Kernels = 1, m_Inputs = 0,
       m_Outputs = 0, m_InputsShielded = 0, m_OutputsShielded = 0\<rparr>"
  have "s\<lparr>m_Kernels := m_Kernels s + 1,
         TxStats.m_Fee := TxStats.m_Fee s + uintBigFrom (TxKernel.m_Fee k)\<rparr> = TxStats_add s ?d"
    by (simp add: TxStats_add_def)
  then show ?thesis by (simp add: TxKernel_AddStats_base.simps AddStats_commute(3))
qed

lemma ucast_succ_32_64:
  fixes c :: "32 word"
  assumes "c \<noteq> - 1"
  shows "(ucast (c + 1) :: 64 word) = ucast c + 1"
proof -
  have "1 + c \<noteq> 0"
  proof
    assume "1 + c = 0"
    then have "c = - 1" by (simp add: add_eq_0_iff)
    with assms show False by simp
  qed
  then have u: "unat (1 + c) = Suc (unat c)" by (rule unatSuc)
  have "(ucast (c + 1) :: 64 word) = of_nat (unat (1 + c))"
    by (simp add: add.commute)
  also have "\<dots> = of_nat (unat c) + 1" by (simp add: u)
  also have "\<dots> = ucast c + 1" by simp
  finally show ?thesis .
qed

lemma AddStats_ShieldedOutput_eq:
  assumes "m_Sub k = TxKernelShieldedOutput msg txo"
  shows "TxKernel_AddStats k s =
    TxStats_add (AddStats_vNested (m_vNested k) s) (own_ShieldedOutput (TxKernel.m_Fee k))"
  using assms
  by (simp add: TxKernel_AddStats.simps [of k] Let_def AddStats_base_eq)
     (simp add: TxStats_add_def own_ShieldedOutput_def)

lemma AddStats_ShieldedInput_eq:
  assumes "m_Sub k = TxKernelShieldedInput msg we sp"
  shows "TxKernel_AddStats k s =
    TxStats_add (AddStats_vNested (m_vNested k) s) (own_ShieldedInput (TxKernel.m_Fee k))"
  using assms
  by (simp add: TxKernel_AddStats.simps [of k] Let_def AddStats_base_eq)
     (simp add: TxStats_add_def own_ShieldedInput_def)

lemma Calculate_own_ShieldedOutput:
  assumes "m_Kernels s \<noteq> - 1" "m_Outputs s \<noteq> - 1" "m_OutputsShielded s \<noteq> - 1"
  shows "Calculate fs (TxStats_add s (own_ShieldedOutput fee)) =
    Calculate fs s + (m_Kernel fs + m_Output fs + m_ShieldedOutput fs)"
  using assms
  by (simp add: Calculate_def TxStats_add_def own_ShieldedOutput_def ucast_succ_32_64
      distrib_left)

lemma Calculate_own_ShieldedInput:
  assumes "m_Kernels s \<noteq> - 1" "m_InputsShielded s \<noteq> - 1"
  shows "Calculate fs (TxStats_add s (own_ShieldedInput fee)) =
    Calculate fs s + (m_Kernel fs + m_ShieldedInput fs)"
  using assms
  by (simp add: Calculate_def TxStats_add_def own_ShieldedInput_def ucast_succ_32_64
      distrib_left)

text \<open>
  C10. \<open>AddStats\<close> of a shielded kernel increments both the plain and the shielded
  counters: a \<open>TxKernelShieldedOutput\<close> adds 1 to \<open>m_Kernels\<close>, \<open>m_Outputs\<close> and
  \<open>m_OutputsShielded\<close>, a \<open>TxKernelShieldedInput\<close> adds 1 to \<open>m_Kernels\<close>, \<open>m_Inputs\<close>
  and \<open>m_InputsShielded\<close>, each on top of what its nested kernels add. So, as long as no
  32-bit counter wraps, \<open>FeeSettings::Calculate\<close> charges a shielded output kernel
  \<open>m_Kernel + m_Output + m_ShieldedOutput\<close> (1020 by default) and a shielded input kernel
  \<open>m_Kernel + m_ShieldedInput\<close> (1010 by default).
\<close>

theorem C10_shielded_AddStats:
  "(m_Sub k = TxKernelShieldedOutput msg txo \<longrightarrow>
      TxKernel_AddStats k s =
        TxStats_add (AddStats_vNested (m_vNested k) s) (own_ShieldedOutput (TxKernel.m_Fee k))
      \<and> (m_Kernels (AddStats_vNested (m_vNested k) s) \<noteq> - 1
           \<and> m_Outputs (AddStats_vNested (m_vNested k) s) \<noteq> - 1
           \<and> m_OutputsShielded (AddStats_vNested (m_vNested k) s) \<noteq> - 1
         \<longrightarrow> Calculate fs (TxKernel_AddStats k s) =
               Calculate fs (AddStats_vNested (m_vNested k) s)
               + (m_Kernel fs + m_Output fs + m_ShieldedOutput fs)))
   \<and> (m_Sub k = TxKernelShieldedInput msg' we sp \<longrightarrow>
      TxKernel_AddStats k s =
        TxStats_add (AddStats_vNested (m_vNested k) s) (own_ShieldedInput (TxKernel.m_Fee k))
      \<and> (m_Kernels (AddStats_vNested (m_vNested k) s) \<noteq> - 1
           \<and> m_InputsShielded (AddStats_vNested (m_vNested k) s) \<noteq> - 1
         \<longrightarrow> Calculate fs (TxKernel_AddStats k s) =
               Calculate fs (AddStats_vNested (m_vNested k) s)
               + (m_Kernel fs + m_ShieldedInput fs)))
   \<and> m_Kernel FeeSettings_new + m_Output FeeSettings_new + m_ShieldedOutput FeeSettings_new = 1020
   \<and> m_Kernel FeeSettings_new + m_ShieldedInput FeeSettings_new = 1010"
proof (intro conjI impI)
  assume a: "m_Sub k = TxKernelShieldedOutput msg txo"
  then show e: "TxKernel_AddStats k s =
        TxStats_add (AddStats_vNested (m_vNested k) s) (own_ShieldedOutput (TxKernel.m_Fee k))"
    by (rule AddStats_ShieldedOutput_eq)
  assume "m_Kernels (AddStats_vNested (m_vNested k) s) \<noteq> - 1
           \<and> m_Outputs (AddStats_vNested (m_vNested k) s) \<noteq> - 1
           \<and> m_OutputsShielded (AddStats_vNested (m_vNested k) s) \<noteq> - 1"
  then show "Calculate fs (TxKernel_AddStats k s) =
               Calculate fs (AddStats_vNested (m_vNested k) s)
               + (m_Kernel fs + m_Output fs + m_ShieldedOutput fs)"
    unfolding e by (simp add: Calculate_own_ShieldedOutput)
next
  assume a: "m_Sub k = TxKernelShieldedInput msg' we sp"
  then show e: "TxKernel_AddStats k s =
        TxStats_add (AddStats_vNested (m_vNested k) s) (own_ShieldedInput (TxKernel.m_Fee k))"
    by (rule AddStats_ShieldedInput_eq)
  assume "m_Kernels (AddStats_vNested (m_vNested k) s) \<noteq> - 1
           \<and> m_InputsShielded (AddStats_vNested (m_vNested k) s) \<noteq> - 1"
  then show "Calculate fs (TxKernel_AddStats k s) =
               Calculate fs (AddStats_vNested (m_vNested k) s)
               + (m_Kernel fs + m_ShieldedInput fs)"
    unfolding e by (simp add: Calculate_own_ShieldedInput)
next
  show "m_Kernel FeeSettings_new + m_Output FeeSettings_new + m_ShieldedOutput FeeSettings_new = 1020"
    by (simp add: FeeSettings_new_def)
  show "m_Kernel FeeSettings_new + m_ShieldedInput FeeSettings_new = 1010"
    by (simp add: FeeSettings_new_def)
qed

theorem C10_shielded_AddStats_witness:
  "TxKernel_AddStats sample_ShieldedOutput TxStats_Reset =
      \<lparr>TxStats.m_Fee = 7, TxStats.m_Coinbase = 0, m_Kernels = 1, m_Inputs = 0, m_Outputs = 1,
       m_InputsShielded = 0, m_OutputsShielded = 1\<rparr>
   \<and> Calculate FeeSettings_new (TxKernel_AddStats sample_ShieldedOutput TxStats_Reset) = 1020
   \<and> TxKernel_AddStats sample_ShieldedInput TxStats_Reset =
      \<lparr>TxStats.m_Fee = 9, TxStats.m_Coinbase = 0, m_Kernels = 1, m_Inputs = 1, m_Outputs = 0,
       m_InputsShielded = 1, m_OutputsShielded = 0\<rparr>
   \<and> Calculate FeeSettings_new (TxKernel_AddStats sample_ShieldedInput TxStats_Reset) = 1010"
proof -
  have o: "m_Sub sample_ShieldedOutput = TxKernelShieldedOutput 0 sample_Txo"
    "m_vNested sample_ShieldedOutput = []" "TxKernel.m_Fee sample_ShieldedOutput = 7"
    by (simp_all add: sample_ShieldedOutput_def)
  have i: "m_Sub sample_ShieldedInput = TxKernelShieldedInput 0 0 sample_SpendProof"
    "m_vNested sample_ShieldedInput = []" "TxKernel.m_Fee sample_ShieldedInput = 9"
    by (simp_all add: sample_ShieldedInput_def)
  have z: "Calculate FeeSettings_new TxStats_Reset = 0"
    by (simp add: Calculate_def TxStats_Reset_def)
  have fsv: "m_Kernel FeeSettings_new = 10" "m_Output FeeSettings_new = 10"
    "m_ShieldedInput FeeSettings_new = 1000" "m_ShieldedOutput FeeSettings_new = 1000"
    by (simp_all add: FeeSettings_new_def)
  have n: "m_Kernels TxStats_Reset \<noteq> - 1" "m_Outputs TxStats_Reset \<noteq> - 1"
    "m_OutputsShielded TxStats_Reset \<noteq> - 1" "m_InputsShielded TxStats_Reset \<noteq> - 1"
    by (simp_all add: TxStats_Reset_def)
  note t1 = C10_shielded_AddStats [where k = sample_ShieldedOutput and msg = 0
      and txo = sample_Txo and s = TxStats_Reset and fs = FeeSettings_new]
  note t2 = C10_shielded_AddStats [where k = sample_ShieldedInput and msg' = 0 and we = 0
      and sp = sample_SpendProof and s = TxStats_Reset and fs = FeeSettings_new]
  from t1 have "m_Sub sample_ShieldedOutput = TxKernelShieldedOutput 0 sample_Txo \<longrightarrow>
      TxKernel_AddStats sample_ShieldedOutput TxStats_Reset =
        TxStats_add (AddStats_vNested (m_vNested sample_ShieldedOutput) TxStats_Reset)
          (own_ShieldedOutput (TxKernel.m_Fee sample_ShieldedOutput))
      \<and> (m_Kernels (AddStats_vNested (m_vNested sample_ShieldedOutput) TxStats_Reset) \<noteq> - 1
           \<and> m_Outputs (AddStats_vNested (m_vNested sample_ShieldedOutput) TxStats_Reset) \<noteq> - 1
           \<and> m_OutputsShielded (AddStats_vNested (m_vNested sample_ShieldedOutput) TxStats_Reset) \<noteq> - 1
         \<longrightarrow> Calculate FeeSettings_new (TxKernel_AddStats sample_ShieldedOutput TxStats_Reset) =
               Calculate FeeSettings_new (AddStats_vNested (m_vNested sample_ShieldedOutput) TxStats_Reset)
               + (m_Kernel FeeSettings_new + m_Output FeeSettings_new + m_ShieldedOutput FeeSettings_new))"
    by (rule conjunct1)
  from this o(1) have a: "TxKernel_AddStats sample_ShieldedOutput TxStats_Reset =
        TxStats_add (AddStats_vNested (m_vNested sample_ShieldedOutput) TxStats_Reset)
          (own_ShieldedOutput (TxKernel.m_Fee sample_ShieldedOutput))
      \<and> (m_Kernels (AddStats_vNested (m_vNested sample_ShieldedOutput) TxStats_Reset) \<noteq> - 1
           \<and> m_Outputs (AddStats_vNested (m_vNested sample_ShieldedOutput) TxStats_Reset) \<noteq> - 1
           \<and> m_OutputsShielded (AddStats_vNested (m_vNested sample_ShieldedOutput) TxStats_Reset) \<noteq> - 1
         \<longrightarrow> Calculate FeeSettings_new (TxKernel_AddStats sample_ShieldedOutput TxStats_Reset) =
               Calculate FeeSettings_new (AddStats_vNested (m_vNested sample_ShieldedOutput) TxStats_Reset)
               + (m_Kernel FeeSettings_new + m_Output FeeSettings_new + m_ShieldedOutput FeeSettings_new))"
    by (rule mp)
  from a have 1: "TxKernel_AddStats sample_ShieldedOutput TxStats_Reset =
      TxStats_add TxStats_Reset (own_ShieldedOutput 7)"
    unfolding o by simp
  from a [THEN conjunct2] n have 2:
    "Calculate FeeSettings_new (TxKernel_AddStats sample_ShieldedOutput TxStats_Reset) = 1020"
    unfolding o by (simp add: z fsv)
  from t2 have "m_Sub sample_ShieldedInput = TxKernelShieldedInput 0 0 sample_SpendProof \<longrightarrow>
      TxKernel_AddStats sample_ShieldedInput TxStats_Reset =
        TxStats_add (AddStats_vNested (m_vNested sample_ShieldedInput) TxStats_Reset)
          (own_ShieldedInput (TxKernel.m_Fee sample_ShieldedInput))
      \<and> (m_Kernels (AddStats_vNested (m_vNested sample_ShieldedInput) TxStats_Reset) \<noteq> - 1
           \<and> m_InputsShielded (AddStats_vNested (m_vNested sample_ShieldedInput) TxStats_Reset) \<noteq> - 1
         \<longrightarrow> Calculate FeeSettings_new (TxKernel_AddStats sample_ShieldedInput TxStats_Reset) =
               Calculate FeeSettings_new (AddStats_vNested (m_vNested sample_ShieldedInput) TxStats_Reset)
               + (m_Kernel FeeSettings_new + m_ShieldedInput FeeSettings_new))"
    by (rule conjunct2 [THEN conjunct1])
  from this i(1) have b: "TxKernel_AddStats sample_ShieldedInput TxStats_Reset =
        TxStats_add (AddStats_vNested (m_vNested sample_ShieldedInput) TxStats_Reset)
          (own_ShieldedInput (TxKernel.m_Fee sample_ShieldedInput))
      \<and> (m_Kernels (AddStats_vNested (m_vNested sample_ShieldedInput) TxStats_Reset) \<noteq> - 1
           \<and> m_InputsShielded (AddStats_vNested (m_vNested sample_ShieldedInput) TxStats_Reset) \<noteq> - 1
         \<longrightarrow> Calculate FeeSettings_new (TxKernel_AddStats sample_ShieldedInput TxStats_Reset) =
               Calculate FeeSettings_new (AddStats_vNested (m_vNested sample_ShieldedInput) TxStats_Reset)
               + (m_Kernel FeeSettings_new + m_ShieldedInput FeeSettings_new))"
    by (rule mp)
  from b have 3: "TxKernel_AddStats sample_ShieldedInput TxStats_Reset =
      TxStats_add TxStats_Reset (own_ShieldedInput 9)"
    unfolding i by simp
  from b [THEN conjunct2] n have 4:
    "Calculate FeeSettings_new (TxKernel_AddStats sample_ShieldedInput TxStats_Reset) = 1010"
    unfolding i by (simp add: z fsv)
  show ?thesis using 2 4 unfolding 1 3
    by (simp add: TxStats_add_def TxStats_Reset_def own_ShieldedOutput_def own_ShieldedInput_def
        uintBigFrom_def)
qed

subsection \<open>The comparisons are total preorders\<close>

lemma CMP_SIMPLE_antisym: "CMP_SIMPLE b a = - CMP_SIMPLE a b"
  by (auto simp add: CMP_SIMPLE_def)

lemma CMP_SIMPLE_trans3: "cmp_trans3 (CMP_SIMPLE a b) (CMP_SIMPLE b d) (CMP_SIMPLE a d)"
  by (auto simp add: CMP_SIMPLE_def cmp_trans3_def)

lemma cmp_trans3_zero: "cmp_trans3 0 0 0"
  by (simp add: cmp_trans3_def)

lemma then_cmp_antisym:
  assumes "n' = - n" and "n = 0 \<Longrightarrow> m' = - m"
  shows "then_cmp n' m' = - then_cmp n m"
  using assms by (auto simp add: then_cmp_def)

lemma then_cmp_trans3:
  assumes "cmp_trans3 x1 y1 z1"
    and "x1 = 0 \<Longrightarrow> y1 = 0 \<Longrightarrow> z1 = 0 \<Longrightarrow> cmp_trans3 x2 y2 z2"
  shows "cmp_trans3 (then_cmp x1 x2) (then_cmp y1 y2) (then_cmp z1 z2)"
  using assms unfolding cmp_trans3_def then_cmp_def
  by (cases "x1 = 0"; cases "y1 = 0"; cases "z1 = 0") auto

lemma CMP_PTRS_antisym:
  assumes "\<And>x y. a = Some x \<Longrightarrow> b = Some y \<Longrightarrow> c y x = - c x y"
  shows "CMP_PTRS c b a = - CMP_PTRS c a b"
  using assms by (auto simp add: CMP_PTRS_def split: option.splits)

lemma CMP_PTRS_trans3:
  assumes "\<And>x y z. a = Some x \<Longrightarrow> b = Some y \<Longrightarrow> d = Some z \<Longrightarrow> cmp_trans3 (c x y) (c y z) (c x z)"
  shows "cmp_trans3 (CMP_PTRS c a b) (CMP_PTRS c b d) (CMP_PTRS c a d)"
proof (cases a; cases b; cases d)
  fix x y z assume "a = Some x" "b = Some y" "d = Some z"
  with assms show ?thesis by (simp add: CMP_PTRS_def)
qed (simp_all add: CMP_PTRS_def cmp_trans3_def)

lemma uintBig_cmp_antisym: "uintBig_cmp b a = - uintBig_cmp a b"
  unfolding uintBig_cmp_def by (rule CMP_SIMPLE_antisym)

lemma uintBig_cmp_trans3: "cmp_trans3 (uintBig_cmp a b) (uintBig_cmp b d) (uintBig_cmp a d)"
  unfolding uintBig_cmp_def by (rule CMP_SIMPLE_trans3)

lemma Point_cmp_antisym: "Point_cmp b a = - Point_cmp a b"
  unfolding Point_cmp_def
  by (intro then_cmp_antisym uintBig_cmp_antisym CMP_SIMPLE_antisym)

lemma Point_cmp_trans3: "cmp_trans3 (Point_cmp a b) (Point_cmp b d) (Point_cmp a d)"
  unfolding Point_cmp_def
  by (intro then_cmp_trans3 uintBig_cmp_trans3 CMP_SIMPLE_trans3)

lemma Signature_cmp_antisym: "Signature_cmp b a = - Signature_cmp a b"
  unfolding Signature_cmp_def by (rule CMP_SIMPLE_antisym)

lemma Signature_cmp_trans3:
  "cmp_trans3 (Signature_cmp a b) (Signature_cmp b d) (Signature_cmp a d)"
  unfolding Signature_cmp_def by (rule CMP_SIMPLE_trans3)

lemma Confidential_cmp_antisym: "Confidential_cmp b a = - Confidential_cmp a b"
  unfolding Confidential_cmp_def by (rule CMP_SIMPLE_antisym)

lemma Confidential_cmp_trans3:
  "cmp_trans3 (Confidential_cmp a b) (Confidential_cmp b d) (Confidential_cmp a d)"
  unfolding Confidential_cmp_def by (rule CMP_SIMPLE_trans3)

lemma Public_cmp_antisym: "Public_cmp b a = - Public_cmp a b"
  unfolding Public_cmp_def
  by (intro then_cmp_antisym Signature_cmp_antisym CMP_SIMPLE_antisym)

lemma Public_cmp_trans3: "cmp_trans3 (Public_cmp a b) (Public_cmp b d) (Public_cmp a d)"
  unfolding Public_cmp_def
  by (intro then_cmp_trans3 Signature_cmp_trans3 CMP_SIMPLE_trans3)

lemma HashLock_cmp_antisym: "HashLock_cmp b a = - HashLock_cmp a b"
  unfolding HashLock_cmp_def
  by (intro then_cmp_antisym uintBig_cmp_antisym) simp

lemma HashLock_cmp_trans3:
  "cmp_trans3 (HashLock_cmp a b) (HashLock_cmp b d) (HashLock_cmp a d)"
  unfolding HashLock_cmp_def
  by (intro then_cmp_trans3 uintBig_cmp_trans3 cmp_trans3_zero)

lemma RelativeLock_cmp_antisym: "RelativeLock_cmp b a = - RelativeLock_cmp a b"
  unfolding RelativeLock_cmp_def
  by (intro then_cmp_antisym uintBig_cmp_antisym CMP_SIMPLE_antisym) simp

lemma RelativeLock_cmp_trans3:
  "cmp_trans3 (RelativeLock_cmp a b) (RelativeLock_cmp b d) (RelativeLock_cmp a d)"
  unfolding RelativeLock_cmp_def
  by (intro then_cmp_trans3 uintBig_cmp_trans3 CMP_SIMPLE_trans3 cmp_trans3_zero)

lemma TxElement_cmp_antisym: "TxElement_cmp b a = - TxElement_cmp a b"
  unfolding TxElement_cmp_def
  by (intro then_cmp_antisym Point_cmp_antisym) simp

lemma TxElement_cmp_trans3:
  "cmp_trans3 (TxElement_cmp a b) (TxElement_cmp b d) (TxElement_cmp a d)"
  unfolding TxElement_cmp_def
  by (intro then_cmp_trans3 Point_cmp_trans3 cmp_trans3_zero)

lemma Output_cmp_antisym: "Output_cmp b a = - Output_cmp a b"
  unfolding Output_cmp_def
  by (intro then_cmp_antisym TxElement_cmp_antisym CMP_SIMPLE_antisym uintBig_cmp_antisym
      CMP_PTRS_antisym Confidential_cmp_antisym Public_cmp_antisym) simp

lemma Output_cmp_trans3:
  "cmp_trans3 (Output_cmp a b) (Output_cmp b d) (Output_cmp a d)"
  unfolding Output_cmp_def
  by (intro then_cmp_trans3 TxElement_cmp_trans3 CMP_SIMPLE_trans3 uintBig_cmp_trans3
      CMP_PTRS_trans3 Confidential_cmp_trans3 Public_cmp_trans3 cmp_trans3_zero)

lemma TxKernel_cmp_chain:
  "TxKernel_cmp r a v =
    then_cmp (CMP_SIMPLE (b2 r a) (b2 r v))
    (then_cmp (CMP_SIMPLE (b2_ID r a) (b2_ID r v))
    (then_cmp (CMP_SIMPLE (Subtype_Enum (get_Subtype a)) (Subtype_Enum (get_Subtype v)))
      (cmp_Subtype r a v)))"
  by (simp add: TxKernel_cmp.simps [of r a v] Let_def b2_def b2_ID_def then_cmp_def
      CMP_SIMPLE_def uintBig_cmp_def)

lemma Subtype_Enum_inj: "Subtype_Enum s = Subtype_Enum t \<Longrightarrow> s = t"
  by (cases s; cases t) (simp_all add: Subtype_Enum_def)

lemma CMP_SIMPLE_Subtype_0:
  "CMP_SIMPLE (Subtype_Enum (get_Subtype a)) (Subtype_Enum (get_Subtype v)) = 0
    \<Longrightarrow> get_Subtype a = get_Subtype v"
  by (rule Subtype_Enum_inj) (simp add: CMP_SIMPLE_def split: if_splits)

lemma cmp_vNested_antisym:
  assumes "\<And>x y. x \<in> set xs \<Longrightarrow> TxKernel_cmp r y x = - TxKernel_cmp r x y"
  shows "cmp_vNested r ys xs = - cmp_vNested r xs ys"
  using assms
proof (induction xs arbitrary: ys)
  case Nil
  show ?case by (cases ys) simp_all
next
  case (Cons x xs)
  show ?case
  proof (cases ys)
    case Nil
    then show ?thesis by simp
  next
    case (Cons y ys')
    have "then_cmp (TxKernel_cmp r y x) (cmp_vNested r ys' xs)
        = - then_cmp (TxKernel_cmp r x y) (cmp_vNested r xs ys')"
      by (rule then_cmp_antisym) (simp_all add: Cons.prems Cons.IH)
    with Cons show ?thesis by simp
  qed
qed

lemma cmp_vNested_trans3:
  assumes "\<And>x y z. x \<in> set xs \<Longrightarrow>
      cmp_trans3 (TxKernel_cmp r x y) (TxKernel_cmp r y z) (TxKernel_cmp r x z)"
  shows "cmp_trans3 (cmp_vNested r xs ys) (cmp_vNested r ys zs) (cmp_vNested r xs zs)"
  using assms
proof (induction xs arbitrary: ys zs)
  case Nil
  show ?case by (cases ys; cases zs) (simp_all add: cmp_trans3_def)
next
  case (Cons x xs)
  show ?case
  proof (cases ys)
    case Nil
    then show ?thesis by (simp add: cmp_trans3_def)
  next
    case ys: (Cons y ys')
    show ?thesis
    proof (cases zs)
      case Nil
      with ys show ?thesis by (simp add: cmp_trans3_def)
    next
      case zs: (Cons z zs')
      have "cmp_trans3 (then_cmp (TxKernel_cmp r x y) (cmp_vNested r xs ys'))
              (then_cmp (TxKernel_cmp r y z) (cmp_vNested r ys' zs'))
              (then_cmp (TxKernel_cmp r x z) (cmp_vNested r xs zs'))"
        by (rule then_cmp_trans3) (simp_all add: Cons.prems Cons.IH)
      with ys zs show ?thesis by simp
    qed
  qed
qed

lemma cmp_Subtype_antisym:
  assumes st: "get_Subtype a = get_Subtype b"
    and nested: "cmp_vNested r (m_vNested b) (m_vNested a) = - cmp_vNested r (m_vNested a) (m_vNested b)"
  shows "cmp_Subtype r b a = - cmp_Subtype r a b"
proof (cases "m_Sub a")
  case a: (TxKernelStd c0 sg0 hl0 rl0)
  with st obtain c1 sg1 hl1 rl1 where b: "m_Sub b = TxKernelStd c1 sg1 hl1 rl1"
    by (cases "m_Sub b") (simp_all add: get_Subtype_def)
  show ?thesis
    unfolding cmp_Subtype.simps [of r a b] cmp_Subtype.simps [of r b a] a b KernelSub.case
    by (intro then_cmp_antisym Point_cmp_antisym Signature_cmp_antisym CMP_SIMPLE_antisym
        nested CMP_PTRS_antisym HashLock_cmp_antisym RelativeLock_cmp_antisym) simp
next
  case a: (TxKernelAssetEmit msg c sg aid v)
  with st show ?thesis
    by (cases "m_Sub b") (simp_all add: get_Subtype_def cmp_Subtype.simps [of r a b]
        cmp_Subtype.simps [of r b a])
next
  case a: (TxKernelShieldedOutput msg txo)
  with st show ?thesis
    by (cases "m_Sub b") (simp_all add: get_Subtype_def cmp_Subtype.simps [of r a b]
        cmp_Subtype.simps [of r b a])
next
  case a: (TxKernelShieldedInput msg we sp)
  with st show ?thesis
    by (cases "m_Sub b") (simp_all add: get_Subtype_def cmp_Subtype.simps [of r a b]
        cmp_Subtype.simps [of r b a])
qed

lemma TxKernel_cmp_antisym: "TxKernel_cmp r b a = - TxKernel_cmp r a b"
proof (induction a arbitrary: b)
  case (TxKernel id fee h ce ns sub)
  let ?a = "TxKernel id fee h ce ns sub"
  have n: "cmp_vNested r (m_vNested b) (m_vNested ?a) = - cmp_vNested r (m_vNested ?a) (m_vNested b)"
    by (rule cmp_vNested_antisym) (simp add: TxKernel.IH)
  show ?case
    unfolding TxKernel_cmp_chain [of r b ?a] TxKernel_cmp_chain [of r ?a b]
  proof (intro then_cmp_antisym CMP_SIMPLE_antisym)
    assume "CMP_SIMPLE (Subtype_Enum (get_Subtype ?a)) (Subtype_Enum (get_Subtype b)) = 0"
    then have "get_Subtype ?a = get_Subtype b" by (rule CMP_SIMPLE_Subtype_0)
    then show "cmp_Subtype r b ?a = - cmp_Subtype r ?a b"
      using n by (rule cmp_Subtype_antisym)
  qed
qed

lemma cmp_Subtype_nonStd:
  assumes "get_Subtype a = get_Subtype b" and "get_Subtype a \<noteq> Std"
  shows "cmp_Subtype r a b = 0"
  using assms
  by (cases "m_Sub a"; cases "m_Sub b")
     (simp_all add: get_Subtype_def cmp_Subtype.simps [of r a b])

lemma get_Subtype_Std:
  "get_Subtype a = Std \<Longrightarrow> \<exists>c sg hl rl. m_Sub a = TxKernelStd c sg hl rl"
  by (cases "m_Sub a") (simp_all add: get_Subtype_def)

lemma cmp_Subtype_trans3:
  assumes ab: "get_Subtype a = get_Subtype b" and bd: "get_Subtype b = get_Subtype d"
    and nested: "cmp_trans3 (cmp_vNested r (m_vNested a) (m_vNested b))
      (cmp_vNested r (m_vNested b) (m_vNested d)) (cmp_vNested r (m_vNested a) (m_vNested d))"
  shows "cmp_trans3 (cmp_Subtype r a b) (cmp_Subtype r b d) (cmp_Subtype r a d)"
proof (cases "get_Subtype a = Std")
  case False
  with ab bd have "cmp_Subtype r a b = 0" "cmp_Subtype r b d = 0" "cmp_Subtype r a d = 0"
    by (simp_all add: cmp_Subtype_nonStd)
  then show ?thesis by (simp add: cmp_trans3_zero)
next
  case True
  with ab bd have sb: "get_Subtype b = Std" and sd: "get_Subtype d = Std" by simp_all
  from get_Subtype_Std [OF True] obtain c0 sg0 hl0 rl0
    where a: "m_Sub a = TxKernelStd c0 sg0 hl0 rl0" by blast
  from get_Subtype_Std [OF sb] obtain c1 sg1 hl1 rl1
    where b: "m_Sub b = TxKernelStd c1 sg1 hl1 rl1" by blast
  from get_Subtype_Std [OF sd] obtain c2 sg2 hl2 rl2
    where d: "m_Sub d = TxKernelStd c2 sg2 hl2 rl2" by blast
  show ?thesis
    unfolding cmp_Subtype.simps [of r a b] cmp_Subtype.simps [of r b d]
      cmp_Subtype.simps [of r a d] a b d KernelSub.case
    by (intro then_cmp_trans3 Point_cmp_trans3 Signature_cmp_trans3 CMP_SIMPLE_trans3
        nested CMP_PTRS_trans3 HashLock_cmp_trans3 RelativeLock_cmp_trans3 cmp_trans3_zero)
qed

lemma TxKernel_cmp_trans3:
  "cmp_trans3 (TxKernel_cmp r a b) (TxKernel_cmp r b d) (TxKernel_cmp r a d)"
proof (induction a arbitrary: b d)
  case (TxKernel id fee h ce ns sub)
  let ?a = "TxKernel id fee h ce ns sub"
  have n: "cmp_trans3 (cmp_vNested r (m_vNested ?a) (m_vNested b))
      (cmp_vNested r (m_vNested b) (m_vNested d)) (cmp_vNested r (m_vNested ?a) (m_vNested d))"
    by (rule cmp_vNested_trans3) (simp add: TxKernel.IH)
  show ?case
    unfolding TxKernel_cmp_chain [of r ?a b] TxKernel_cmp_chain [of r b d]
      TxKernel_cmp_chain [of r ?a d]
  proof (intro then_cmp_trans3 CMP_SIMPLE_trans3)
    assume "CMP_SIMPLE (Subtype_Enum (get_Subtype ?a)) (Subtype_Enum (get_Subtype b)) = 0"
      and "CMP_SIMPLE (Subtype_Enum (get_Subtype b)) (Subtype_Enum (get_Subtype d)) = 0"
    then have "get_Subtype ?a = get_Subtype b" "get_Subtype b = get_Subtype d"
      by (auto dest: CMP_SIMPLE_Subtype_0)
    then show "cmp_trans3 (cmp_Subtype r ?a b) (cmp_Subtype r b d) (cmp_Subtype r ?a d)"
      using n by (rule cmp_Subtype_trans3)
  qed
qed

subsection \<open>Sorting\<close>

lemma sorted_by_Cons:
  "sorted_by c (x # xs) = ((\<forall>y \<in> set xs. c x y \<le> 0) \<and> sorted_by c xs)"
  by (simp add: sorted_by_def)

lemma mset_iter_swap [simp]: "mset (iter_swap i j xs) = mset xs"
  by (simp add: iter_swap_def mset_swap)

lemma mset_move_median_to_first [simp]:
  "mset (move_median_to_first lt xs result a b c) = mset xs"
  by (simp add: move_median_to_first_def)

lemma mset_unguarded_partition:
  "mset (fst (unguarded_partition lt xs first lst pivot)) = mset xs"
proof (induction lt xs first lst pivot rule: unguarded_partition.induct)
  case (1 lt xs first lst pivot)
  show ?case
  proof (cases "partition_up lt xs first pivot < partition_down lt xs (lst - 1) pivot")
    case True
    with "1.IH" [OF refl refl] show ?thesis
      by (subst unguarded_partition.simps) (simp add: Let_def)
  next
    case False
    then show ?thesis by (subst unguarded_partition.simps) (simp add: Let_def)
  qed
qed

lemma mset_unguarded_partition_pivot:
  "unguarded_partition_pivot lt xs first lst = (xs', cutp) \<Longrightarrow> mset xs' = mset xs"
  using mset_unguarded_partition
    [of lt "move_median_to_first lt xs first (first + 1) (first + (lst - first) div 2) (lst - 1)"
      "first + 1" lst first]
  by (simp add: unguarded_partition_pivot_def Let_def)

lemma mset_introsort_loop [simp]:
  "mset (introsort_loop lt xs first lst depth_limit) = mset xs"
proof (induction lt xs first lst depth_limit rule: introsort_loop.induct)
  case (1 lt xs first lst depth_limit)
  show ?case
  proof (cases "16 < lst - first \<and> depth_limit \<noteq> 0")
    case True
    obtain xs' cutp where p: "unguarded_partition_pivot lt xs first lst = (xs', cutp)"
      by (cases "unguarded_partition_pivot lt xs first lst") auto
    from True have a: "16 < lst - first" and b: "depth_limit \<noteq> 0" by simp_all
    from "1.IH"(1) [OF a b p [symmetric]]
    have i: "mset (introsort_loop lt xs' cutp lst (depth_limit - 1)) = mset xs'" .
    from "1.IH"(2) [OF a b p [symmetric]]
    have o: "mset (introsort_loop lt (introsort_loop lt xs' cutp lst (depth_limit - 1))
        first cutp (depth_limit - 1)) = mset (introsort_loop lt xs' cutp lst (depth_limit - 1))" .
    from True p i o mset_unguarded_partition_pivot [OF p] show ?thesis
      by (subst introsort_loop.simps) simp
  next
    case False
    then show ?thesis by (subst introsort_loop.simps) auto
  qed
qed

lemma mset_linear_insert [simp]: "mset (linear_insert lt x xs) = add_mset x (mset xs)"
  by (induction xs) auto

lemma mset_insertion_sort [simp]: "mset (insertion_sort lt xs) = mset xs"
  by (induction xs) auto

lemma set_linear_insert [simp]: "set (linear_insert lt x xs) = insert x (set xs)"
  by (induction xs) auto

lemma set_insertion_sort [simp]: "set (insertion_sort lt xs) = set xs"
  by (induction xs) auto

lemma mset_sample_sort: "mset (sample_sort n m) = mset [0..<n]"
  by (simp add: sample_sort_def)

lemma strict_weak_on_asym:
  assumes "strict_weak_on n m" "i < n" "j < n" "m i j"
  shows "\<not> m j i"
  using assms unfolding strict_weak_on_def by blast

lemma strict_weak_on_negtrans:
  assumes "strict_weak_on n m" "i < n" "j < n" "k < n" "\<not> m j i" "\<not> m k j"
  shows "\<not> m k i"
  using assms unfolding strict_weak_on_def by meson

lemma sorted_linear_insert:
  assumes s: "strict_weak_on n m"
    and x: "x < n" and xs: "\<forall>y \<in> set xs. y < n"
    and o: "sorted_wrt (\<lambda>i j. \<not> m j i) xs"
  shows "sorted_wrt (\<lambda>i j. \<not> m j i) (linear_insert m x xs)"
  using xs o
proof (induction xs)
  case Nil
  show ?case by simp
next
  case (Cons y ys)
  from Cons.prems have y: "y < n" and ys: "\<forall>z \<in> set ys. z < n"
    and yz: "\<forall>z \<in> set ys. \<not> m z y" and o: "sorted_wrt (\<lambda>i j. \<not> m j i) ys"
    by simp_all
  show ?case
  proof (cases "m y x")
    case True
    from strict_weak_on_asym [OF s y x True] have "\<not> m x y" .
    with True yz Cons.IH [OF ys o] show ?thesis by simp
  next
    case False
    have "\<forall>z \<in> set ys. \<not> m z x"
    proof
      fix z assume z: "z \<in> set ys"
      with ys yz have "z < n" "\<not> m z y" by simp_all
      with strict_weak_on_negtrans [OF s x y \<open>z < n\<close> False] show "\<not> m z x" by simp
    qed
    with False yz o show ?thesis by simp
  qed
qed

lemma sorted_insertion_sort:
  assumes s: "strict_weak_on n m" and xs: "\<forall>y \<in> set xs. y < n"
  shows "sorted_wrt (\<lambda>i j. \<not> m j i) (insertion_sort m xs)"
  using xs
proof (induction xs)
  case Nil
  show ?case by simp
next
  case (Cons x xs)
  then have "sorted_wrt (\<lambda>i j. \<not> m j i) (insertion_sort m xs)" by simp
  with sorted_linear_insert [OF s, of x "insertion_sort m xs"] Cons.prems
  show ?case by simp
qed

lemma sample_sort_conforming: "std_sort_conforming sample_sort"
  unfolding std_sort_conforming_def
proof (intro allI impI conjI)
  fix n m
  show "mset (sample_sort n m) = mset [0..<n]" by (rule mset_sample_sort)
next
  fix n m assume s: "strict_weak_on n m"
  have "\<forall>y \<in> set (introsort_loop m [0..<n] 0 n (lg n * 2)). y < n"
    using mset_introsort_loop [of m "[0..<n]" 0 n "lg n * 2", THEN mset_eq_setD] by simp
  from sorted_insertion_sort [OF s this]
  show "sorted_wrt (\<lambda>i j. \<not> m j i) (sample_sort n m)"
    by (simp add: sample_sort_def)
qed

lemma strict_weak_on_cmp:
  assumes anti: "\<And>a b. c b a = - c a b"
    and tr: "\<And>a b d. cmp_trans3 (c a b) (c b d) (c a d)"
  shows "strict_weak_on n (\<lambda>i j. c (xs ! i) (xs ! j) < 0)"
proof -
  have r: "\<not> c a a < 0" for a using anti [of a a] by simp
  have t: "c a b < 0 \<Longrightarrow> c b d < 0 \<Longrightarrow> c a d < 0" for a b d
    using tr [of a b d] by (auto simp add: cmp_trans3_def)
  have e: "c a d = 0" if "\<not> c a b < 0" "\<not> c b a < 0" "\<not> c b d < 0" "\<not> c d b < 0" for a b d
  proof -
    from that anti [of a b] anti [of b d] have z: "c a b = 0" "c b d = 0" by simp_all
    with anti [of a b] anti [of b d] have z': "c b a = 0" "c d b = 0" by simp_all
    from tr [of a b d] z have "c a d \<le> 0" by (simp add: cmp_trans3_def)
    moreover from tr [of d b a] z' have "c d a \<le> 0" by (simp add: cmp_trans3_def)
    ultimately show ?thesis using anti [of a d] by simp
  qed
  have e': "\<not> c a d < 0 \<and> \<not> c d a < 0"
    if "\<not> c a b < 0" "\<not> c b a < 0" "\<not> c b d < 0" "\<not> c d b < 0" for a b d
    using e [OF that] anti [of a d] by simp
  show ?thesis
    unfolding strict_weak_on_def
  proof (intro conjI allI impI)
    fix i show "\<not> c (xs ! i) (xs ! i) < 0" by (rule r)
  next
    fix i j k assume "c (xs ! i) (xs ! j) < 0" "c (xs ! j) (xs ! k) < 0"
    then show "c (xs ! i) (xs ! k) < 0" by (rule t)
  next
    fix i j k
    assume "\<not> c (xs ! i) (xs ! j) < 0 \<and> \<not> c (xs ! j) (xs ! i) < 0"
      and "\<not> c (xs ! j) (xs ! k) < 0 \<and> \<not> c (xs ! k) (xs ! j) < 0"
    then show "\<not> c (xs ! i) (xs ! k) < 0" using e' [of "xs ! i" "xs ! j" "xs ! k"] by simp
  next
    fix i j k
    assume "\<not> c (xs ! i) (xs ! j) < 0 \<and> \<not> c (xs ! j) (xs ! i) < 0"
      and "\<not> c (xs ! j) (xs ! k) < 0 \<and> \<not> c (xs ! k) (xs ! j) < 0"
    then show "\<not> c (xs ! k) (xs ! i) < 0" using e' [of "xs ! i" "xs ! j" "xs ! k"] by simp
  qed
qed

lemma std_sort_positions:
  assumes "std_sort_conforming srt" "strict_weak_on (length xs) (\<lambda>i j. lt (xs ! i) (xs ! j))"
  shows "mset (srt (length xs) (\<lambda>i j. lt (xs ! i) (xs ! j))) = mset [0..<length xs]"
    and "sorted_wrt (\<lambda>i j. \<not> lt (xs ! j) (xs ! i)) (srt (length xs) (\<lambda>i j. lt (xs ! i) (xs ! j)))"
  using assms unfolding std_sort_conforming_def by simp_all

lemma mset_std_sort:
  assumes "std_sort_conforming srt" "strict_weak_on (length xs) (\<lambda>i j. lt (xs ! i) (xs ! j))"
  shows "mset (std_sort srt lt xs) = mset xs"
proof -
  have "mset (std_sort srt lt xs) = image_mset (\<lambda>i. xs ! i) (mset [0..<length xs])"
    unfolding std_sort_def using std_sort_positions(1) [OF assms] by simp
  also have "\<dots> = mset (map (\<lambda>i. xs ! i) [0..<length xs])" by simp
  also have "\<dots> = mset xs" by (simp only: map_nth)
  finally show ?thesis .
qed

lemma sorted_by_std_sort:
  assumes cf: "std_sort_conforming srt"
    and anti: "\<And>a b. c b a = - c a b"
    and tr: "\<And>a b d. cmp_trans3 (c a b) (c b d) (c a d)"
  shows "sorted_by c (std_sort srt (\<lambda>a b. c a b < 0) xs)"
    and "mset (std_sort srt (\<lambda>a b. c a b < 0) xs) = mset xs"
proof -
  have s: "strict_weak_on (length xs) (\<lambda>i j. c (xs ! i) (xs ! j) < 0)"
    using anti tr by (rule strict_weak_on_cmp)
  have le: "\<not> c b a < 0 \<Longrightarrow> c a b \<le> 0" for a b using anti [of a b] by simp
  from std_sort_positions(2) [OF cf, of xs "\<lambda>a b. c a b < 0", OF s]
  have "sorted_wrt (\<lambda>i j. c (xs ! i) (xs ! j) \<le> 0)
      (srt (length xs) (\<lambda>i j. c (xs ! i) (xs ! j) < 0))"
    by (rule sorted_wrt_mono_rel [rotated]) (rule le)
  then show "sorted_by c (std_sort srt (\<lambda>a b. c a b < 0) xs)"
    by (simp add: sorted_by_def std_sort_def sorted_wrt_map)
  from mset_std_sort [OF cf, of xs "\<lambda>a b. c a b < 0", OF s]
  show "mset (std_sort srt (\<lambda>a b. c a b < 0) xs) = mset xs" .
qed

text \<open>Two sorted arrangements of the same elements agree up to equivalent elements.\<close>

lemma sorted_by_nth_less:
  assumes anti: "\<And>a b. c b a = - c a b"
    and tr: "\<And>a b d. cmp_trans3 (c a b) (c b d) (c a d)"
  shows "sorted_by c xs \<Longrightarrow> i < length xs
    \<Longrightarrow> (c (xs ! i) v < 0) = (i < length (filter (\<lambda>a. c a v < 0) xs))"
proof (induction xs arbitrary: i)
  case Nil
  then show ?case by simp
next
  case (Cons x xs)
  from Cons.prems have s: "sorted_by c xs" and le: "\<forall>y \<in> set xs. c x y \<le> 0"
    by (simp_all add: sorted_by_Cons)
  show ?case
  proof (cases "c x v < 0")
    case True
    show ?thesis
    proof (cases i)
      case 0
      with True show ?thesis by simp
    next
      case (Suc j)
      with Cons.prems have "j < length xs" by simp
      from Cons.IH [OF s this] True Suc show ?thesis by simp
    qed
  next
    case False
    have n: "\<not> c a v < 0" if "a \<in> set xs" for a
    proof
      assume "c a v < 0"
      moreover from le that have "c x a \<le> 0" by simp
      ultimately show False using tr [of x a v] False by (auto simp add: cmp_trans3_def)
    qed
    then have "filter (\<lambda>a. c a v < 0) xs = []" by (simp add: filter_empty_conv)
    with False have f: "length (filter (\<lambda>a. c a v < 0) (x # xs)) = 0" by simp
    show ?thesis
    proof (cases i)
      case 0
      with False f show ?thesis by simp
    next
      case (Suc j)
      with Cons.prems have "xs ! j \<in> set xs" by simp
      from n [OF this] Suc f show ?thesis by simp
    qed
  qed
qed

lemma sorted_by_same_elements:
  assumes anti: "\<And>a b. c b a = - c a b"
    and tr: "\<And>a b d. cmp_trans3 (c a b) (c b d) (c a d)"
    and sx: "sorted_by c xs" and sy: "sorted_by c ys" and m: "mset xs = mset ys"
  shows "list_all2 (\<lambda>a b. c a b = 0) xs ys"
proof -
  from m have l: "length xs = length ys" by (rule mset_eq_length)
  have f: "length (filter P xs) = length (filter P ys)" for P
    using m by (metis mset_filter size_mset)
  have z: "c a a = 0" for a using anti [of a a] by simp
  have "c (xs ! i) (ys ! i) = 0" if i: "i < length xs" for i
  proof -
    from i l have j: "i < length ys" by simp
    have "(c (xs ! i) (ys ! i) < 0) = (c (ys ! i) (ys ! i) < 0)"
      unfolding sorted_by_nth_less [of c, OF anti tr sx i]
        sorted_by_nth_less [of c, OF anti tr sy j] f ..
    then have a: "\<not> c (xs ! i) (ys ! i) < 0" by (simp add: z)
    have "(c (ys ! i) (xs ! i) < 0) = (c (xs ! i) (xs ! i) < 0)"
      unfolding sorted_by_nth_less [of c, OF anti tr sx i]
        sorted_by_nth_less [of c, OF anti tr sy j] f ..
    then have "\<not> c (ys ! i) (xs ! i) < 0" by (simp add: z)
    with a anti [of "xs ! i" "ys ! i"] show ?thesis by simp
  qed
  with l show ?thesis by (simp add: list_all2_conv_all_nth)
qed

lemma sorted_by_unique:
  assumes anti: "\<And>a b. c b a = - c a b"
    and tr: "\<And>a b d. cmp_trans3 (c a b) (c b d) (c a d)"
    and sx: "sorted_by c xs" and sy: "sorted_by c ys" and m: "mset xs = mset ys"
    and nt: "\<forall>a \<in> set xs. \<forall>b \<in> set xs. c a b = 0 \<longrightarrow> a = b"
  shows "ys = xs"
proof -
  from sorted_by_same_elements [of c, OF anti tr sx sy m]
  have a: "list_all2 (\<lambda>a b. c a b = 0) xs ys" .
  from m have s: "set ys = set xs" by (metis set_mset_mset)
  from a have l: "length xs = length ys" by (rule list_all2_lengthD)
  show ?thesis
  proof (rule nth_equalityI)
    show "length ys = length xs" using l by simp
  next
    fix i assume i: "i < length ys"
    with l have j: "i < length xs" by simp
    from list_all2_nthD [OF a j] have z: "c (xs ! i) (ys ! i) = 0" .
    from i s have y: "ys ! i \<in> set xs" by (metis nth_mem)
    from j have x: "xs ! i \<in> set xs" by simp
    from nt [rule_format, OF x y z] show "ys ! i = xs ! i" by simp
  qed
qed

subsection \<open>The sweep of NormalizeP\<close>

lemma compact_append [simp]: "compact (xs @ ys) = compact xs @ compact ys"
  by (simp add: compact_def)

lemma compact_Nil [simp]: "compact [] = []"
  by (simp add: compact_def)

lemma compact_Cons_Some [simp]: "compact (Some x # v) = x # compact v"
  by (simp add: compact_def)

lemma compact_Cons_None [simp]: "compact (None # v) = compact v"
  by (simp add: compact_def)

lemma compact_map_Some [simp]: "compact (map Some xs) = xs"
  by (induction xs) simp_all

lemma NormalizeP_outer_step:
  assumes i0: "i0 < length vInputs" and inp: "vInputs ! i0 = Some pInp"
  shows "NormalizeP_outer vInputs vOutputs i0 i1 nDel =
    (if i1 < length vOutputs then
       (case vOutputs ! i1 of
          None \<Rightarrow> Inl NullPointer
        | Some pOut \<Rightarrow>
            if CmpInOut pInp pOut > 0 then NormalizeP_outer vInputs vOutputs i0 (i1 + 1) nDel
            else if CmpInOut pInp pOut = 0
            then NormalizeP_outer (vInputs[i0 := None]) (vOutputs[i1 := None]) (i0 + 1) (i1 + 1) (nDel + 1)
            else NormalizeP_outer vInputs vOutputs (i0 + 1) i1 nDel)
     else NormalizeP_outer vInputs vOutputs (i0 + 1) i1 nDel)"
proof (cases "i1 < length vOutputs")
  case False
  then show ?thesis using i0
    by (simp add: NormalizeP_outer.simps [of vInputs vOutputs i0 i1 nDel]
        NormalizeP_inner.simps [of vInputs vOutputs i0 i1 nDel])
next
  case True
  show ?thesis
  proof (cases "vOutputs ! i1")
    case None
    then show ?thesis using i0 inp True
      by (simp add: NormalizeP_outer.simps [of vInputs vOutputs i0 i1 nDel]
          NormalizeP_inner.simps [of vInputs vOutputs i0 i1 nDel])
  next
    case (Some pOut)
    consider "CmpInOut pInp pOut > 0" | "CmpInOut pInp pOut = 0" | "CmpInOut pInp pOut < 0"
      by linarith
    then show ?thesis
    proof cases
      case 1
      then show ?thesis using i0 inp True Some
        by (simp add: NormalizeP_outer.simps [of vInputs vOutputs i0 i1 nDel]
            NormalizeP_outer.simps [of vInputs vOutputs i0 "Suc i1" nDel]
            NormalizeP_inner.simps [of vInputs vOutputs i0 i1 nDel] Let_def)
    next
      case 2
      then show ?thesis using i0 inp True Some
        by (simp add: NormalizeP_outer.simps [of vInputs vOutputs i0 i1 nDel]
            NormalizeP_inner.simps [of vInputs vOutputs i0 i1 nDel] Let_def)
    next
      case 3
      then show ?thesis using i0 inp True Some
        by (simp add: NormalizeP_outer.simps [of vInputs vOutputs i0 i1 nDel]
            NormalizeP_inner.simps [of vInputs vOutputs i0 i1 nDel] Let_def)
    qed
  qed
qed

lemma NormalizeP_outer_done:
  "\<not> i0 < length vInputs \<Longrightarrow>
    NormalizeP_outer vInputs vOutputs i0 i1 nDel = Inr (vInputs, vOutputs, nDel)"
  by (subst NormalizeP_outer.simps) simp

lemma drop_eq_ConsD:
  assumes "drop i v = x # xs"
  shows "i < length v" and "v ! i = x" and "drop (Suc i) v = xs"
    and "take (Suc i) v = take i v @ [x]"
proof -
  show l: "i < length v"
  proof (rule ccontr)
    assume "\<not> i < length v"
    then have "drop i v = []" by simp
    with assms show False by simp
  qed
  from Cons_nth_drop_Suc [OF l] assms show n: "v ! i = x" and "drop (Suc i) v = xs"
    by simp_all
  from take_Suc_conv_app_nth [OF l] n show "take (Suc i) v = take i v @ [x]" by simp
qed

lemma take_Suc_update:
  assumes "i < length v"
  shows "take (Suc i) (v[i := y]) = take i v @ [y]"
  using assms by (simp add: take_Suc_conv_app_nth)

lemma NormalizeP_outer_cut_through:
  assumes "drop i0 vInputs = map Some xs" and "drop i1 vOutputs = map Some ys"
    and "i0 \<le> length vInputs" and "i1 \<le> length vOutputs"
    and "cut_through xs ys = (a, b, rp)"
  shows "\<exists>vInputs' vOutputs'.
    NormalizeP_outer vInputs vOutputs i0 i1 nDel = Inr (vInputs', vOutputs', nDel + length rp)
    \<and> length vInputs' = length vInputs \<and> length vOutputs' = length vOutputs
    \<and> compact vInputs' = compact (take i0 vInputs) @ a
    \<and> compact vOutputs' = compact (take i1 vOutputs) @ b"
  using assms
proof (induction xs ys arbitrary: vInputs vOutputs i0 i1 nDel a b rp rule: cut_through.induct)
  case (1 outs)
  from "1.prems"(1,3) have i0: "i0 = length vInputs" by simp
  then have "\<not> i0 < length vInputs" by simp
  then have r: "NormalizeP_outer vInputs vOutputs i0 i1 nDel = Inr (vInputs, vOutputs, nDel)"
    by (rule NormalizeP_outer_done)
  have "vOutputs = take i1 vOutputs @ map Some outs"
    using "1.prems"(2) by (metis append_take_drop_id)
  then have "compact vOutputs = compact (take i1 vOutputs) @ outs"
    by (metis compact_append compact_map_Some)
  then show ?case using "1.prems"(5) r i0 by simp
next
  case (2 i ins)
  from "2.prems"(1) have d: "drop i0 vInputs = Some i # map Some ins" by simp
  note D = drop_eq_ConsD [OF d]
  from "2.prems"(2,4) have i1: "i1 = length vOutputs" by simp
  obtain a' b' rp' where c: "cut_through ins [] = (a', b', rp')"
    by (cases "cut_through ins []") auto
  with "2.prems"(5) have abr: "a = i # a'" "b = b'" "rp = rp'" by simp_all
  have step: "NormalizeP_outer vInputs vOutputs i0 i1 nDel
      = NormalizeP_outer vInputs vOutputs (i0 + 1) i1 nDel"
    using NormalizeP_outer_step [OF D(1) D(2), of vOutputs i1 nDel] i1 by simp
  from D(1) have le: "Suc i0 \<le> length vInputs" by simp
  from "2.IH" [of "Suc i0" vInputs i1 vOutputs a' b' rp' nDel] D(3) "2.prems"(2,4) le c
  obtain vInputs' vOutputs' where
    r: "NormalizeP_outer vInputs vOutputs (Suc i0) i1 nDel = Inr (vInputs', vOutputs', nDel + length rp')"
      "length vInputs' = length vInputs" "length vOutputs' = length vOutputs"
      "compact vInputs' = compact (take (Suc i0) vInputs) @ a'"
      "compact vOutputs' = compact (take i1 vOutputs) @ b'"
    by auto
  show ?case using step r abr D(4) by simp
next
  case (3 i ins out outs)
  from "3.prems"(1) have d: "drop i0 vInputs = Some i # map Some ins" by simp
  note D = drop_eq_ConsD [OF d]
  from "3.prems"(2) have e: "drop i1 vOutputs = Some out # map Some outs" by simp
  note E = drop_eq_ConsD [OF e]
  note step = NormalizeP_outer_step [OF D(1) D(2), of vOutputs i1 nDel]
  from D(1) have le0: "Suc i0 \<le> length vInputs" by simp
  from E(1) have le1: "Suc i1 \<le> length vOutputs" by simp
  consider "CmpInOut i out > 0" | "CmpInOut i out = 0" | "CmpInOut i out < 0"
    by linarith
  then show ?case
  proof cases
    case 1
    obtain a' b' rp' where c: "cut_through (i # ins) outs = (a', b', rp')"
      by (cases "cut_through (i # ins) outs") auto
    with "3.prems"(5) 1 have abr: "a = a'" "b = out # b'" "rp = rp'" by simp_all
    have s: "NormalizeP_outer vInputs vOutputs i0 i1 nDel
        = NormalizeP_outer vInputs vOutputs i0 (Suc i1) nDel"
      using step E(1) E(2) 1 by simp
    from "3.IH"(1) [OF 1, of i0 vInputs "Suc i1" vOutputs a' b' rp' nDel]
      "3.prems"(1,3) E(3) le1 c
    obtain vInputs' vOutputs' where
      r: "NormalizeP_outer vInputs vOutputs i0 (Suc i1) nDel = Inr (vInputs', vOutputs', nDel + length rp')"
        "length vInputs' = length vInputs" "length vOutputs' = length vOutputs"
        "compact vInputs' = compact (take i0 vInputs) @ a'"
        "compact vOutputs' = compact (take (Suc i1) vOutputs) @ b'"
      by auto
    show ?thesis using s r abr E(4) by simp
  next
    case 2
    obtain a' b' rp' where c: "cut_through ins outs = (a', b', rp')"
      by (cases "cut_through ins outs") auto
    with "3.prems"(5) 2 have abr: "a = a'" "b = b'" "rp = (i, out) # rp'" by simp_all
    let ?vi = "vInputs[i0 := None]" and ?vo = "vOutputs[i1 := None]"
    have s: "NormalizeP_outer vInputs vOutputs i0 i1 nDel
        = NormalizeP_outer ?vi ?vo (Suc i0) (Suc i1) (Suc nDel)"
      using step E(1) E(2) 2 by simp
    have n0: "\<not> 0 < CmpInOut i out" using 2 by simp
    have di: "drop (Suc i0) ?vi = map Some ins" using D(3) by simp
    have do: "drop (Suc i1) ?vo = map Some outs" using E(3) by simp
    from "3.IH"(2) [OF n0 2, of "Suc i0" ?vi "Suc i1" ?vo a' b' rp' "Suc nDel"]
      di do le0 le1 c
    obtain vInputs' vOutputs' where
      r: "NormalizeP_outer ?vi ?vo (Suc i0) (Suc i1) (Suc nDel) = Inr (vInputs', vOutputs', Suc nDel + length rp')"
        "length vInputs' = length ?vi" "length vOutputs' = length ?vo"
        "compact vInputs' = compact (take (Suc i0) ?vi) @ a'"
        "compact vOutputs' = compact (take (Suc i1) ?vo) @ b'"
      by auto
    show ?thesis using s r abr take_Suc_update [OF D(1)] take_Suc_update [OF E(1)] by simp
  next
    case 3
    obtain a' b' rp' where c: "cut_through ins (out # outs) = (a', b', rp')"
      by (cases "cut_through ins (out # outs)") auto
    with "3.prems"(5) 3 have abr: "a = i # a'" "b = b'" "rp = rp'" by simp_all
    have s: "NormalizeP_outer vInputs vOutputs i0 i1 nDel
        = NormalizeP_outer vInputs vOutputs (Suc i0) i1 nDel"
      using step E(1) E(2) 3 by simp
    have n0: "\<not> 0 < CmpInOut i out" "CmpInOut i out \<noteq> 0" using 3 by simp_all
    from "3.IH"(3) [OF n0, of "Suc i0" vInputs i1 vOutputs a' b' rp' nDel]
      D(3) "3.prems"(2,4) le0 c
    obtain vInputs' vOutputs' where
      r: "NormalizeP_outer vInputs vOutputs (Suc i0) i1 nDel = Inr (vInputs', vOutputs', nDel + length rp')"
        "length vInputs' = length vInputs" "length vOutputs' = length vOutputs"
        "compact vInputs' = compact (take (Suc i0) vInputs) @ a'"
        "compact vOutputs' = compact (take i1 vOutputs) @ b'"
      by auto
    show ?thesis using s r abr D(4) by simp
  qed
qed

lemma those_filter_nonnull: "those (filter (\<lambda>p. p \<noteq> None) v) = Some (compact v)"
  by (induction v) (auto simp add: compact_def)

lemma length_compact_le: "length (compact v) \<le> length v"
  by (simp add: compact_def)

lemma those_without_null:
  "length (compact v) = length v \<Longrightarrow> those v = Some (compact v)"
proof (induction v)
  case Nil
  show ?case by simp
next
  case (Cons p v)
  show ?case
  proof (cases p)
    case None
    with Cons.prems length_compact_le [of v] show ?thesis by simp
  next
    case (Some x)
    with Cons show ?thesis by simp
  qed
qed

lemma cut_through_length:
  "cut_through xs ys = (a, b, rp) \<Longrightarrow>
    length a + length rp = length xs \<and> length b + length rp = length ys"
  by (induction xs ys arbitrary: a b rp rule: cut_through.induct)
     (auto split: if_splits prod.splits)

lemma cut_through_mset:
  "cut_through xs ys = (a, b, rp) \<Longrightarrow>
    mset xs = mset a + mset (map fst rp) \<and> mset ys = mset b + mset (map snd rp)"
  by (induction xs ys arbitrary: a b rp rule: cut_through.induct)
     (auto split: if_splits prod.splits)

lemma cut_through_pairs:
  "cut_through xs ys = (a, b, rp) \<Longrightarrow> \<forall>(i, out) \<in> set rp. CmpInOut i out = 0"
  by (induction xs ys arbitrary: a b rp rule: cut_through.induct)
     (auto split: if_splits prod.splits)

lemma cut_through_subset:
  "cut_through xs ys = (a, b, rp) \<Longrightarrow> set a \<subseteq> set xs \<and> set b \<subseteq> set ys"
  by (induction xs ys arbitrary: a b rp rule: cut_through.induct)
     (auto split: if_splits prod.splits)

lemma cut_through_sorted:
  "cut_through xs ys = (a, b, rp) \<Longrightarrow> sorted_by c xs \<Longrightarrow> sorted_by c' ys
    \<Longrightarrow> sorted_by c a \<and> sorted_by c' b"
proof (induction xs ys arbitrary: a b rp rule: cut_through.induct)
  case (1 outs)
  then show ?case by (simp add: sorted_by_def)
next
  case (2 i ins)
  obtain a' b' rp' where c: "cut_through ins [] = (a', b', rp')"
    by (cases "cut_through ins []") auto
  from cut_through_subset [OF c] have "set a' \<subseteq> set ins" by simp
  with 2 c show ?case by (fastforce simp add: sorted_by_Cons)
next
  case (3 i ins out outs)
  consider "CmpInOut i out > 0" | "CmpInOut i out = 0" | "CmpInOut i out < 0"
    by linarith
  then show ?case
  proof cases
    case 1
    obtain a' b' rp' where c: "cut_through (i # ins) outs = (a', b', rp')"
      by (cases "cut_through (i # ins) outs") auto
    from cut_through_subset [OF c] have "set b' \<subseteq> set outs" by simp
    with 3 1 c show ?thesis by (fastforce simp add: sorted_by_Cons)
  next
    case 2
    obtain a' b' rp' where c: "cut_through ins outs = (a', b', rp')"
      by (cases "cut_through ins outs") auto
    with 3 2 show ?thesis by (fastforce simp add: sorted_by_Cons)
  next
    case 3
    obtain a' b' rp' where c: "cut_through ins (out # outs) = (a', b', rp')"
      by (cases "cut_through ins (out # outs)") auto
    from cut_through_subset [OF c] have "set a' \<subseteq> set ins" by simp
    with "3.IH"(3) [of a' b' rp'] "3.prems" 3 c show ?thesis
      by (fastforce simp add: sorted_by_Cons)
  qed
qed

lemma Point_cmp_eq_0_iff: "Point_cmp a b = 0 \<longleftrightarrow> a = b"
  by (cases a; cases b)
     (auto simp add: Point_cmp_def then_cmp_def uintBig_cmp_def CMP_SIMPLE_def)

lemma TxElement_cmp_Point: "TxElement_cmp a b = Point_cmp (m_Commitment a) (m_Commitment b)"
  by (simp add: TxElement_cmp_def then_cmp_def)

lemma CmpInOut_eq_0_iff: "CmpInOut i out = 0 \<longleftrightarrow> m_Commitment i = m_Commitment out"
  by (simp add: CmpInOut_def TxElement_cmp_Point Point_cmp_eq_0_iff)

lemma Output_cmp_le_TxElement: "Output_cmp a b \<le> 0 \<Longrightarrow> TxElement_cmp a b \<le> 0"
  by (auto simp add: Output_cmp_def then_cmp_def [of "TxElement_cmp a b"] split: if_splits)

lemma sorted_by_Output_TxElement:
  "sorted_by Output_cmp ys \<Longrightarrow> sorted_by TxElement_cmp ys"
  unfolding sorted_by_def
  by (erule sorted_wrt_mono_rel [rotated]) (rule Output_cmp_le_TxElement)

lemma cut_through_no_shared:
  "cut_through xs ys = (a, b, rp) \<Longrightarrow> sorted_by TxElement_cmp xs
    \<Longrightarrow> sorted_by TxElement_cmp ys \<Longrightarrow> no_shared_commitment a b"
proof (induction xs ys arbitrary: a b rp rule: cut_through.induct)
  case (1 outs)
  then show ?case by (simp add: no_shared_commitment_def)
next
  case (2 i ins)
  obtain a' b' rp' where c: "cut_through ins [] = (a', b', rp')"
    by (cases "cut_through ins []") auto
  from cut_through_subset [OF c] have "b' = []" by simp
  with 2 c show ?case by (auto simp add: no_shared_commitment_def)
next
  case (3 i ins out outs)
  from "3.prems"(2) have si: "sorted_by TxElement_cmp ins"
    and li: "\<forall>x \<in> set ins. TxElement_cmp i x \<le> 0" by (simp_all add: sorted_by_Cons)
  from "3.prems"(3) have so: "sorted_by TxElement_cmp outs"
    and lo: "\<forall>y \<in> set outs. TxElement_cmp out y \<le> 0" by (simp_all add: sorted_by_Cons)
  consider "CmpInOut i out > 0" | "CmpInOut i out = 0" | "CmpInOut i out < 0"
    by linarith
  then show ?case
  proof cases
    case 1
    obtain a' b' rp' where c: "cut_through (i # ins) outs = (a', b', rp')"
      by (cases "cut_through (i # ins) outs") auto
    with "3.prems"(1) 1 have abr: "a = a'" "b = out # b'" by simp_all
    from "3.IH"(1) [OF 1 c "3.prems"(2) so] have ih: "no_shared_commitment a' b'" .
    have "\<forall>x \<in> set a'. m_Commitment x \<noteq> m_Commitment out"
    proof
      fix x assume "x \<in> set a'"
      with cut_through_subset [OF c] have "x \<in> set (i # ins)" by auto
      then have ix: "Point_cmp (m_Commitment i) (m_Commitment x) \<le> 0"
        using li Point_cmp_antisym [of "m_Commitment i" "m_Commitment i"]
        by (auto simp add: TxElement_cmp_Point)
      show "m_Commitment x \<noteq> m_Commitment out"
      proof
        assume "m_Commitment x = m_Commitment out"
        with ix have "CmpInOut i out \<le> 0" by (simp add: CmpInOut_def TxElement_cmp_Point)
        with 1 show False by simp
      qed
    qed
    with ih abr show ?thesis by (auto simp add: no_shared_commitment_def)
  next
    case 2
    obtain a' b' rp' where c: "cut_through ins outs = (a', b', rp')"
      by (cases "cut_through ins outs") auto
    with "3.prems"(1) 2 have abr: "a = a'" "b = b'" by simp_all
    have n0: "\<not> 0 < CmpInOut i out" using 2 by simp
    from "3.IH"(2) [OF n0 2 c si so] abr show ?thesis by simp
  next
    case 3
    obtain a' b' rp' where c: "cut_through ins (out # outs) = (a', b', rp')"
      by (cases "cut_through ins (out # outs)") auto
    with "3.prems"(1) 3 have abr: "a = i # a'" "b = b'" by simp_all
    have n0: "\<not> 0 < CmpInOut i out" "CmpInOut i out \<noteq> 0" using 3 by simp_all
    from "3.IH"(3) [OF n0 c si "3.prems"(3)] have ih: "no_shared_commitment a' b'" .
    have "\<forall>y \<in> set b'. m_Commitment i \<noteq> m_Commitment y"
    proof
      fix y assume "y \<in> set b'"
      with cut_through_subset [OF c] have "y \<in> set (out # outs)" by auto
      then have oy: "Point_cmp (m_Commitment out) (m_Commitment y) \<le> 0"
        using lo Point_cmp_antisym [of "m_Commitment out" "m_Commitment out"]
        by (auto simp add: TxElement_cmp_Point)
      have io: "Point_cmp (m_Commitment i) (m_Commitment out) < 0"
        using 3 by (simp add: CmpInOut_def TxElement_cmp_Point)
      show "m_Commitment i \<noteq> m_Commitment y"
      proof
        assume e: "m_Commitment i = m_Commitment y"
        then have "Point_cmp (m_Commitment i) (m_Commitment y) = 0"
          by (simp add: Point_cmp_eq_0_iff)
        with Point_cmp_trans3 [of "m_Commitment i" "m_Commitment out" "m_Commitment y"] io oy
        show False by (simp add: cmp_trans3_def)
      qed
    qed
    with ih abr show ?thesis by (auto simp add: no_shared_commitment_def)
  qed
qed

lemma cut_through_nothing_shared:
  "no_shared_commitment xs ys \<Longrightarrow> cut_through xs ys = (xs, ys, [])"
proof (induction xs ys rule: cut_through.induct)
  case (1 outs)
  show ?case by simp
next
  case (2 i ins)
  then show ?case by (simp add: no_shared_commitment_def)
next
  case (3 i ins out outs)
  from "3.prems" have ne: "CmpInOut i out \<noteq> 0"
    by (simp add: CmpInOut_eq_0_iff no_shared_commitment_def)
  from "3.prems" have a: "no_shared_commitment (i # ins) outs"
    and b: "no_shared_commitment ins (out # outs)"
    by (simp_all add: no_shared_commitment_def)
  show ?case
  proof (cases "CmpInOut i out > 0")
    case True
    with "3.IH"(1) [OF True a] show ?thesis by simp
  next
    case False
    with "3.IH"(3) [OF False ne b] ne show ?thesis by simp
  qed
qed

subsection \<open>Normalize\<close>

lemma NormalizeP_cut_through:
  assumes c: "cut_through (std_sort srt Input_lt (m_vInputs t)) (std_sort srt Output_lt (m_vOutputs t))
      = (a, b, rp)"
  shows "NormalizeP srt t = Inr (t\<lparr>m_vInputs := a, m_vOutputs := b\<rparr>, length rp)"
proof -
  let ?xs = "std_sort srt Input_lt (m_vInputs t)" and ?ys = "std_sort srt Output_lt (m_vOutputs t)"
  from NormalizeP_outer_cut_through [of 0 "map Some ?xs" ?xs 0 "map Some ?ys" ?ys a b rp 0] c
  obtain vi vo where r: "NormalizeP_outer (map Some ?xs) (map Some ?ys) 0 0 0 = Inr (vi, vo, length rp)"
    and li: "length vi = length ?xs" and lo: "length vo = length ?ys"
    and ci: "compact vi = a" and co: "compact vo = b"
    by auto
  from cut_through_length [OF c] have la: "length a + length rp = length ?xs"
    and lb: "length b + length rp = length ?ys" by simp_all
  have ti: "those (if length rp \<noteq> 0 then RebuildVectorWithoutNulls vi (length rp) else vi) = Some a"
  proof (cases "length rp = 0")
    case True
    with la li ci have "length (compact vi) = length vi" by simp
    from those_without_null [OF this] True ci show ?thesis by simp
  next
    case False
    then have "(if length rp \<noteq> 0 then RebuildVectorWithoutNulls vi (length rp) else vi)
        = RebuildVectorWithoutNulls vi (length rp)" by simp
    then show ?thesis
      unfolding RebuildVectorWithoutNulls_def by (simp only: those_filter_nonnull ci)
  qed
  have to: "those (if length rp \<noteq> 0 then RebuildVectorWithoutNulls vo (length rp) else vo) = Some b"
  proof (cases "length rp = 0")
    case True
    with lb lo co have "length (compact vo) = length vo" by simp
    from those_without_null [OF this] True co show ?thesis by simp
  next
    case False
    then have "(if length rp \<noteq> 0 then RebuildVectorWithoutNulls vo (length rp) else vo)
        = RebuildVectorWithoutNulls vo (length rp)" by simp
    then show ?thesis
      unfolding RebuildVectorWithoutNulls_def by (simp only: those_filter_nonnull co)
  qed
  show ?thesis
    unfolding NormalizeP_def Let_def r using ti to by simp
qed

lemma Input_lt_cmp: "Input_lt = (\<lambda>a b. TxElement_cmp a b < 0)"
  by (simp add: Input_lt_def fun_eq_iff)

lemma Output_lt_cmp: "Output_lt = (\<lambda>a b. Output_cmp a b < 0)"
  by (simp add: Output_lt_def fun_eq_iff)

lemma TxKernel_lt_cmp: "TxKernel_lt r = (\<lambda>a b. TxKernel_cmp r a b < 0)"
  by (simp add: TxKernel_lt_def fun_eq_iff)

lemma sorted_Inputs:
  assumes "std_sort_conforming srt"
  shows "sorted_by TxElement_cmp (std_sort srt Input_lt xs)"
    and "mset (std_sort srt Input_lt xs) = mset xs"
  unfolding Input_lt_cmp
  by (rule sorted_by_std_sort [OF assms]; rule TxElement_cmp_antisym TxElement_cmp_trans3)+

lemma sorted_Outputs:
  assumes "std_sort_conforming srt"
  shows "sorted_by Output_cmp (std_sort srt Output_lt xs)"
    and "mset (std_sort srt Output_lt xs) = mset xs"
  unfolding Output_lt_cmp
  by (rule sorted_by_std_sort [OF assms]; rule Output_cmp_antisym Output_cmp_trans3)+

lemma sorted_Kernels:
  assumes "std_sort_conforming srt"
  shows "sorted_by (TxKernel_cmp r) (std_sort srt (TxKernel_lt r) xs)"
    and "mset (std_sort srt (TxKernel_lt r) xs) = mset xs"
  unfolding TxKernel_lt_cmp
  by (rule sorted_by_std_sort [OF assms]; rule TxKernel_cmp_antisym TxKernel_cmp_trans3)+

text \<open>What Normalize returns, in terms of the sorted vectors and the cut-through.\<close>

lemma Normalize_result:
  assumes c: "cut_through (std_sort srt Input_lt (m_vInputs t)) (std_sort srt Output_lt (m_vOutputs t))
      = (a, b, rp)"
  shows "Normalize srt r t =
    Inr (t\<lparr>m_vInputs := a, m_vOutputs := b,
           m_vKernels := std_sort srt (TxKernel_lt r) (m_vKernels t)\<rparr>, length rp)"
proof -
  have "cut_through (std_sort srt Input_lt (m_vInputs (NormalizeE srt r t)))
      (std_sort srt Output_lt (m_vOutputs (NormalizeE srt r t))) = (a, b, rp)"
    using c by (simp add: NormalizeE_def)
  from NormalizeP_cut_through [OF this] show ?thesis
    by (simp add: Normalize_def NormalizeE_def)
qed

lemma Normalize_canonical:
  assumes cf: "std_sort_conforming srt" and n: "Normalize srt r t = Inr (t', n)"
  shows "canonical r t'"
proof -
  obtain a b rp where c:
    "cut_through (std_sort srt Input_lt (m_vInputs t)) (std_sort srt Output_lt (m_vOutputs t))
      = (a, b, rp)"
    by (cases "cut_through (std_sort srt Input_lt (m_vInputs t))
        (std_sort srt Output_lt (m_vOutputs t))") auto
  from Normalize_result [OF c, of r] n
  have t': "t' = t\<lparr>m_vInputs := a, m_vOutputs := b,
           m_vKernels := std_sort srt (TxKernel_lt r) (m_vKernels t)\<rparr>" by simp
  from cut_through_sorted [OF c sorted_Inputs(1) [OF cf] sorted_Outputs(1) [OF cf]]
  have s: "sorted_by TxElement_cmp a" "sorted_by Output_cmp b" by simp_all
  from cut_through_no_shared [OF c sorted_Inputs(1) [OF cf]
      sorted_by_Output_TxElement [OF sorted_Outputs(1) [OF cf]]]
  have "no_shared_commitment a b" .
  with s sorted_Kernels(1) [OF cf, of r "m_vKernels t"] show ?thesis
    unfolding t' canonical_def by simp
qed

lemma Normalize_of_canonical:
  assumes cf: "std_sort_conforming srt" and can: "canonical r t"
  shows "\<exists>t'. Normalize srt r t = Inr (t', 0) \<and> canonical r t' \<and> equal_up_to_ties r t t'
    \<and> (tie_free r t \<longrightarrow> t' = t)"
proof -
  let ?a = "std_sort srt Input_lt (m_vInputs t)"
  let ?b = "std_sort srt Output_lt (m_vOutputs t)"
  let ?k = "std_sort srt (TxKernel_lt r) (m_vKernels t)"
  let ?t' = "t\<lparr>m_vInputs := ?a, m_vOutputs := ?b, m_vKernels := ?k\<rparr>"
  note si = sorted_Inputs [OF cf, of "m_vInputs t"]
  note so = sorted_Outputs [OF cf, of "m_vOutputs t"]
  note sk = sorted_Kernels [OF cf, of r "m_vKernels t"]
  from can have ci: "sorted_by TxElement_cmp (m_vInputs t)"
    and co: "sorted_by Output_cmp (m_vOutputs t)"
    and ck: "sorted_by (TxKernel_cmp r) (m_vKernels t)"
    and ns: "no_shared_commitment (m_vInputs t) (m_vOutputs t)"
    by (simp_all add: canonical_def)
  from si(2) so(2) have "set ?a = set (m_vInputs t)" "set ?b = set (m_vOutputs t)"
    by (auto dest: mset_eq_setD)
  with ns have ns': "no_shared_commitment ?a ?b" by (simp add: no_shared_commitment_def)
  then have "cut_through ?a ?b = (?a, ?b, [])" by (rule cut_through_nothing_shared)
  from Normalize_result [OF this, of r] have n: "Normalize srt r t = Inr (?t', 0)" by simp
  from si(1) so(1) sk(1) ns' have c': "canonical r ?t'" by (simp add: canonical_def)
  have ei: "same_up_to_ties TxElement_cmp (m_vInputs t) ?a"
    unfolding same_up_to_ties_def using si(2)
      sorted_by_same_elements [OF TxElement_cmp_antisym TxElement_cmp_trans3 ci si(1)]
    by simp
  have eo: "same_up_to_ties Output_cmp (m_vOutputs t) ?b"
    unfolding same_up_to_ties_def using so(2)
      sorted_by_same_elements [OF Output_cmp_antisym Output_cmp_trans3 co so(1)]
    by simp
  have ek: "same_up_to_ties (TxKernel_cmp r) (m_vKernels t) ?k"
    unfolding same_up_to_ties_def using sk(2)
      sorted_by_same_elements [OF TxKernel_cmp_antisym TxKernel_cmp_trans3 ck sk(1)]
    by simp
  from ei eo ek have e: "equal_up_to_ties r t ?t'" by (simp add: equal_up_to_ties_def)
  have u: "?t' = t" if f: "tie_free r t"
  proof -
    from f have "no_ties TxElement_cmp (m_vInputs t)" by (simp add: tie_free_def)
    then have "?a = m_vInputs t"
      unfolding no_ties_def using si(2)
      by (intro sorted_by_unique [OF TxElement_cmp_antisym TxElement_cmp_trans3 ci si(1)]) simp_all
    moreover from f have "no_ties Output_cmp (m_vOutputs t)" by (simp add: tie_free_def)
    then have "?b = m_vOutputs t"
      unfolding no_ties_def using so(2)
      by (intro sorted_by_unique [OF Output_cmp_antisym Output_cmp_trans3 co so(1)]) simp_all
    moreover from f have "no_ties (TxKernel_cmp r) (m_vKernels t)" by (simp add: tie_free_def)
    then have "?k = m_vKernels t"
      unfolding no_ties_def using sk(2)
      by (intro sorted_by_unique [OF TxKernel_cmp_antisym TxKernel_cmp_trans3 ck sk(1)]) simp_all
    ultimately show ?thesis by simp
  qed
  from n c' e u show ?thesis by blast
qed

lemma upt_17: "[0..<17] = [0, 1, 2, 3, 4, 5, 6, 7, 8, 9, 10, 11, 12, 13, 14, 15, 16]"
  by code_simp

lemma sample_sort_small: "n \<le> 16 \<Longrightarrow> sample_sort n m = insertion_sort m [0..<n]"
  by (simp add: sample_sort_def introsort_loop.simps [of m "[0..<n]" 0 n])

lemma sample_sort_17_tied:
  assumes "\<And>i j. i < 17 \<Longrightarrow> j < 17 \<Longrightarrow> \<not> m i j"
  shows "sample_sort 17 m = [8, 16, 15, 14, 13, 12, 11, 10, 9, 0, 7, 6, 5, 4, 3, 2, 1]"
  by (simp add: sample_sort_def upt_17 lg.simps introsort_loop.simps
      unguarded_partition_pivot_def move_median_to_first_def iter_swap_def
      unguarded_partition.simps partition_up.simps partition_down.simps Let_def assms)

lemma std_sort_17_tied:
  assumes l: "length xs = 17" and t: "\<forall>a \<in> set xs. \<forall>b \<in> set xs. \<not> lt a b"
  shows "std_sort sample_sort lt xs
    = map (\<lambda>i. xs ! i) [8, 16, 15, 14, 13, 12, 11, 10, 9, 0, 7, 6, 5, 4, 3, 2, 1]"
proof -
  have "\<not> lt (xs ! i) (xs ! j)" if "i < 17" "j < 17" for i j
    using that l t by simp
  from sample_sort_17_tied [of "\<lambda>i j. lt (xs ! i) (xs ! j)", OF this]
  show ?thesis by (simp add: std_sort_def l)
qed

lemma std_sort_small:
  "length xs \<le> 16 \<Longrightarrow> std_sort sample_sort lt xs
    = map (\<lambda>i. xs ! i) (insertion_sort (\<lambda>i j. lt (xs ! i) (xs ! j)) [0..<length xs])"
  by (simp add: std_sort_def sample_sort_small)

lemma cut_through_Nil2: "cut_through xs [] = (xs, [], [])"
  by (induction xs) simp_all

lemma sorted_by_tied: "\<forall>a \<in> set xs. \<forall>b \<in> set xs. c a b \<le> 0 \<Longrightarrow> sorted_by c xs"
  unfolding sorted_by_def by (induction xs) simp_all

lemma tied_In_cmp: "TxElement_cmp (tied_In a) (tied_In b) = 0"
  by (simp add: TxElement_cmp_def Point_cmp_def uintBig_cmp_def then_cmp_def CMP_SIMPLE_def
      tied_In_def)

lemma tied_Kernel_cmp: "TxKernel_cmp sample_Rules (tied_Kernel a) (tied_Kernel b) = 0"
  by (simp add: TxKernel_cmp.simps cmp_Subtype.simps tied_Kernel_def sample_Rules_def Let_def
      get_Subtype_def CMP_SIMPLE_def then_cmp_def word_le_nat_alt)

lemma sample_Normalize_tied:
  "Normalize sample_sort sample_Rules sample_Tx_tied = Inr (sample_Tx_tied_1, 0)"
proof -
  have i: "std_sort sample_sort Input_lt (m_vInputs sample_Tx_tied) = m_vInputs sample_Tx_tied_1"
    by (subst std_sort_17_tied)
       (auto simp add: sample_Tx_tied_def sample_Tx_tied_1_def Input_lt_def tied_In_cmp upt_17)
  have k: "std_sort sample_sort (TxKernel_lt sample_Rules) (m_vKernels sample_Tx_tied)
      = m_vKernels sample_Tx_tied_1"
    by (subst std_sort_17_tied)
       (auto simp add: sample_Tx_tied_def sample_Tx_tied_1_def TxKernel_lt_def tied_Kernel_cmp upt_17)
  have o: "std_sort sample_sort Output_lt (m_vOutputs sample_Tx_tied) = []"
    by (simp add: std_sort_small sample_Tx_tied_def)
  have "cut_through (std_sort sample_sort Input_lt (m_vInputs sample_Tx_tied))
      (std_sort sample_sort Output_lt (m_vOutputs sample_Tx_tied))
    = (m_vInputs sample_Tx_tied_1, [], [])"
    unfolding i o by (rule cut_through_Nil2)
  from Normalize_result [OF this, of sample_Rules] show ?thesis
    unfolding k by (simp add: sample_Tx_tied_def sample_Tx_tied_1_def)
qed

lemma sample_Normalize_tied_1:
  "Normalize sample_sort sample_Rules sample_Tx_tied_1 = Inr (sample_Tx_tied_2, 0)"
proof -
  have i: "std_sort sample_sort Input_lt (m_vInputs sample_Tx_tied_1) = m_vInputs sample_Tx_tied_2"
    by (subst std_sort_17_tied)
       (auto simp add: sample_Tx_tied_1_def sample_Tx_tied_2_def Input_lt_def tied_In_cmp)
  have k: "std_sort sample_sort (TxKernel_lt sample_Rules) (m_vKernels sample_Tx_tied_1)
      = m_vKernels sample_Tx_tied_2"
    by (subst std_sort_17_tied)
       (auto simp add: sample_Tx_tied_1_def sample_Tx_tied_2_def TxKernel_lt_def tied_Kernel_cmp)
  have o: "std_sort sample_sort Output_lt (m_vOutputs sample_Tx_tied_1) = []"
    by (simp add: std_sort_small sample_Tx_tied_1_def)
  have "cut_through (std_sort sample_sort Input_lt (m_vInputs sample_Tx_tied_1))
      (std_sort sample_sort Output_lt (m_vOutputs sample_Tx_tied_1))
    = (m_vInputs sample_Tx_tied_2, [], [])"
    unfolding i o by (rule cut_through_Nil2)
  from Normalize_result [OF this, of sample_Rules] show ?thesis
    unfolding k by (simp add: sample_Tx_tied_1_def sample_Tx_tied_2_def)
qed

lemma sample_Tx_tied_canonical: "canonical sample_Rules sample_Tx_tied"
  unfolding canonical_def
  by (auto simp add: sample_Tx_tied_def no_shared_commitment_def tied_In_cmp tied_Kernel_cmp
      intro!: sorted_by_tied)

lemma sample_Tx_tied_changed:
  "sample_Tx_tied_1 \<noteq> sample_Tx_tied" "sample_Tx_tied_2 \<noteq> sample_Tx_tied_1"
proof -
  show "sample_Tx_tied_1 \<noteq> sample_Tx_tied"
  proof
    assume "sample_Tx_tied_1 = sample_Tx_tied"
    then have "m_vInputs sample_Tx_tied_1 ! 0 = m_vInputs sample_Tx_tied ! 0" by simp
    then show False
      by (simp add: sample_Tx_tied_def sample_Tx_tied_1_def upt_17 tied_In_def)
  qed
  show "sample_Tx_tied_2 \<noteq> sample_Tx_tied_1"
  proof
    assume "sample_Tx_tied_2 = sample_Tx_tied_1"
    then have "m_vInputs sample_Tx_tied_2 ! 0 = m_vInputs sample_Tx_tied_1 ! 0" by simp
    then show False
      by (simp add: sample_Tx_tied_1_def sample_Tx_tied_2_def tied_In_def)
  qed
qed

text \<open>
  C3. For every transaction, and every \<open>std::sort\<close> that keeps the library's promise,
  \<open>TxVectors::Full::Normalize\<close> returns; afterwards the inputs, the outputs and the
  kernels are each sorted, no remaining input shares a commitment with a remaining
  output, and the returned count is the number of input/output pairs removed (each pair
  with one commitment), which is the size reduction of the input vector and of the output
  vector. The kernels are permuted and the offset is untouched.
\<close>

theorem C3_Normalize:
  assumes "std_sort_conforming srt"
  shows "\<exists>t' n rp. Normalize srt r t = Inr (t', n)
    \<and> sorted_by TxElement_cmp (m_vInputs t')
    \<and> sorted_by Output_cmp (m_vOutputs t')
    \<and> sorted_by (TxKernel_cmp r) (m_vKernels t')
    \<and> no_shared_commitment (m_vInputs t') (m_vOutputs t')
    \<and> n = length rp
    \<and> (\<forall>(i, out) \<in> set rp. m_Commitment i = m_Commitment out)
    \<and> mset (m_vInputs t) = mset (m_vInputs t') + mset (map fst rp)
    \<and> mset (m_vOutputs t) = mset (m_vOutputs t') + mset (map snd rp)
    \<and> length (m_vInputs t) = length (m_vInputs t') + n
    \<and> length (m_vOutputs t) = length (m_vOutputs t') + n
    \<and> mset (m_vKernels t') = mset (m_vKernels t)
    \<and> m_Offset t' = m_Offset t"
proof -
  obtain a b rp where c:
    "cut_through (std_sort srt Input_lt (m_vInputs t)) (std_sort srt Output_lt (m_vOutputs t))
      = (a, b, rp)"
    by (cases "cut_through (std_sort srt Input_lt (m_vInputs t))
        (std_sort srt Output_lt (m_vOutputs t))") auto
  let ?t' = "t\<lparr>m_vInputs := a, m_vOutputs := b,
           m_vKernels := std_sort srt (TxKernel_lt r) (m_vKernels t)\<rparr>"
  have n: "Normalize srt r t = Inr (?t', length rp)" using c by (rule Normalize_result)
  from Normalize_canonical [OF assms n] have can: "canonical r ?t'" .
  note mi = sorted_Inputs(2) [OF assms, of "m_vInputs t"]
  note mo = sorted_Outputs(2) [OF assms, of "m_vOutputs t"]
  note mk = sorted_Kernels(2) [OF assms, of r "m_vKernels t"]
  from cut_through_mset [OF c] have m:
    "mset (m_vInputs t) = mset a + mset (map fst rp)"
    "mset (m_vOutputs t) = mset b + mset (map snd rp)" by (simp_all add: mi mo)
  from mi mo have "length (std_sort srt Input_lt (m_vInputs t)) = length (m_vInputs t)"
    "length (std_sort srt Output_lt (m_vOutputs t)) = length (m_vOutputs t)"
    by (auto dest: mset_eq_length)
  with cut_through_length [OF c] have l:
    "length (m_vInputs t) = length a + length rp"
    "length (m_vOutputs t) = length b + length rp" by simp_all
  from cut_through_pairs [OF c] have p: "\<forall>(i, out) \<in> set rp. m_Commitment i = m_Commitment out"
    by (simp add: CmpInOut_eq_0_iff)
  show ?thesis
    apply (rule exI [of _ ?t'])
    apply (rule exI [of _ "length rp"])
    apply (rule exI [of _ rp])
    using n can m l p mk by (simp add: canonical_def)
qed

text \<open>
  C4 (amended). \<open>Normalize\<close> is idempotent up to the order of equivalent elements, for
  every \<open>std::sort\<close> that keeps the library's promise. On a transaction already in
  canonical form (inputs, outputs and kernels sorted, no input/output pair sharing a
  commitment) it returns 0 and a canonical transaction with the same offset whose vectors
  hold the same elements, at every position an element that compares equal to the one
  that stood there; when elements of a vector that compare equal are equal, the
  transaction is unchanged. After any run of \<open>Normalize\<close> a second run does the same to the
  result of the first.
\<close>

theorem C4_Normalize_idempotent_up_to_ties:
  assumes "std_sort_conforming srt"
  shows "(canonical r t \<longrightarrow>
      (\<exists>t'. Normalize srt r t = Inr (t', 0) \<and> canonical r t' \<and> equal_up_to_ties r t t'
        \<and> (tie_free r t \<longrightarrow> t' = t)))
   \<and> (\<forall>t1 n. Normalize srt r t = Inr (t1, n) \<longrightarrow>
      (\<exists>t2. Normalize srt r t1 = Inr (t2, 0) \<and> canonical r t2 \<and> equal_up_to_ties r t1 t2
        \<and> (tie_free r t1 \<longrightarrow> t2 = t1)))"
proof (intro conjI impI allI)
  assume "canonical r t"
  with assms show "\<exists>t'. Normalize srt r t = Inr (t', 0) \<and> canonical r t'
      \<and> equal_up_to_ties r t t' \<and> (tie_free r t \<longrightarrow> t' = t)"
    by (rule Normalize_of_canonical)
next
  fix t1 n assume "Normalize srt r t = Inr (t1, n)"
  with assms have "canonical r t1" by (rule Normalize_canonical)
  with assms show "\<exists>t2. Normalize srt r t1 = Inr (t2, 0) \<and> canonical r t2
      \<and> equal_up_to_ties r t1 t2 \<and> (tie_free r t1 \<longrightarrow> t2 = t1)"
    by (rule Normalize_of_canonical)
qed

lemma upt_small: "[0..<1] = [0]" "[0..<2] = [0, 1]" "[0..<3] = [0, 1, 2]"
  by code_simp+

lemma sample_Out_lt: "Output_lt (sample_Out x) (sample_Out y) = (x < y)"
  by (auto simp add: Output_lt_def Output_cmp_def TxElement_cmp_def Point_cmp_def
      uintBig_cmp_def then_cmp_def CMP_SIMPLE_def CMP_PTRS_def Confidential_cmp_def sample_Out_def)

lemma sample_CmpInOut: "CmpInOut (sample_In x) (sample_Out y) = CMP_SIMPLE x y"
  by (auto simp add: CmpInOut_def TxElement_cmp_def Point_cmp_def
      uintBig_cmp_def then_cmp_def CMP_SIMPLE_def sample_Out_def sample_In_def)

lemma sample_Kernel_lt:
  "TxKernel_lt sample_Rules (sample_Std 1 10 500000) (sample_Std 2 400001 500000)"
  by (simp add: TxKernel_lt_def TxKernel_cmp.simps sample_Std_def sample_Rules_def Let_def
      word_le_nat_alt)

lemma sample_Kernel_not_lt:
  "\<not> TxKernel_lt sample_Rules (sample_Std 2 400001 500000) (sample_Std 1 10 500000)"
  by (simp add: TxKernel_lt_def TxKernel_cmp.simps sample_Std_def sample_Rules_def Let_def
      word_le_nat_alt)

lemma sample_Normalize:
  "Normalize sample_sort sample_Rules sample_Tx = Inr (sample_Tx_normal, 1)"
proof -
  have c: "cut_through (std_sort sample_sort Input_lt (m_vInputs sample_Tx))
      (std_sort sample_sort Output_lt (m_vOutputs sample_Tx))
    = ([], [sample_Out 7, sample_Out 9], [(sample_In 5, sample_Out 5)])"
    by (simp add: sample_Tx_def std_sort_small upt_small sample_Out_lt sample_CmpInOut
        CMP_SIMPLE_def word_less_nat_alt)
  have k: "std_sort sample_sort (TxKernel_lt sample_Rules) (m_vKernels sample_Tx)
      = [sample_Std 1 10 500000, sample_Std 2 400001 500000]"
    by (simp add: sample_Tx_def std_sort_small upt_small sample_Kernel_lt sample_Kernel_not_lt)
  from Normalize_result [OF c, of sample_Rules] show ?thesis
    unfolding k by (simp add: sample_Tx_def sample_Tx_normal_def)
qed

theorem C3_Normalize_witness:
  "std_sort_conforming sample_sort
   \<and> Normalize sample_sort sample_Rules sample_Tx = Inr (sample_Tx_normal, 1)
   \<and> sorted_by TxElement_cmp (m_vInputs sample_Tx_normal)
   \<and> sorted_by Output_cmp (m_vOutputs sample_Tx_normal)
   \<and> sorted_by (TxKernel_cmp sample_Rules) (m_vKernels sample_Tx_normal)
   \<and> no_shared_commitment (m_vInputs sample_Tx_normal) (m_vOutputs sample_Tx_normal)
   \<and> length (m_vInputs sample_Tx) = length (m_vInputs sample_Tx_normal) + 1
   \<and> length (m_vOutputs sample_Tx) = length (m_vOutputs sample_Tx_normal) + 1"
proof -
  from C3_Normalize [OF sample_sort_conforming, of sample_Rules sample_Tx]
  obtain t' n where n: "Normalize sample_sort sample_Rules sample_Tx = Inr (t', n)"
    and p: "sorted_by TxElement_cmp (m_vInputs t')" "sorted_by Output_cmp (m_vOutputs t')"
      "sorted_by (TxKernel_cmp sample_Rules) (m_vKernels t')"
      "no_shared_commitment (m_vInputs t') (m_vOutputs t')"
      "length (m_vInputs sample_Tx) = length (m_vInputs t') + n"
      "length (m_vOutputs sample_Tx) = length (m_vOutputs t') + n"
    by blast
  from n sample_Normalize have "t' = sample_Tx_normal" "n = 1" by simp_all
  with p sample_Normalize sample_sort_conforming show ?thesis by simp
qed

lemma sample_Tx_normal_tie_free: "tie_free sample_Rules sample_Tx_normal"
proof -
  have o: "Output_cmp (sample_Out x) (sample_Out y) = CMP_SIMPLE x y" for x y
    by (auto simp add: Output_cmp_def TxElement_cmp_def Point_cmp_def
      uintBig_cmp_def then_cmp_def CMP_SIMPLE_def CMP_PTRS_def Confidential_cmp_def sample_Out_def)
  have k: "TxKernel_cmp sample_Rules (sample_Std 1 10 500000) (sample_Std 2 400001 500000) \<noteq> 0"
    "TxKernel_cmp sample_Rules (sample_Std 2 400001 500000) (sample_Std 1 10 500000) \<noteq> 0"
    by (simp_all add: TxKernel_cmp.simps sample_Std_def sample_Rules_def Let_def word_le_nat_alt)
  show ?thesis
    by (simp add: tie_free_def no_ties_def sample_Tx_normal_def o k CMP_SIMPLE_def)
qed

theorem C4_Normalize_idempotent_up_to_ties_witness:
  "std_sort_conforming sample_sort
   \<and> canonical sample_Rules sample_Tx_normal
   \<and> tie_free sample_Rules sample_Tx_normal
   \<and> Normalize sample_sort sample_Rules sample_Tx_normal = Inr (sample_Tx_normal, 0)
   \<and> Normalize sample_sort sample_Rules sample_Tx = Inr (sample_Tx_normal, 1)
   \<and> canonical sample_Rules sample_Tx_tied
   \<and> Normalize sample_sort sample_Rules sample_Tx_tied = Inr (sample_Tx_tied_1, 0)
   \<and> equal_up_to_ties sample_Rules sample_Tx_tied sample_Tx_tied_1"
proof -
  note th = C4_Normalize_idempotent_up_to_ties [OF sample_sort_conforming]
  have c: "canonical sample_Rules sample_Tx_normal"
    using sample_sort_conforming sample_Normalize by (rule Normalize_canonical)
  from th [of sample_Rules sample_Tx_normal]
  have "canonical sample_Rules sample_Tx_normal \<longrightarrow>
      (\<exists>t'. Normalize sample_sort sample_Rules sample_Tx_normal = Inr (t', 0)
        \<and> canonical sample_Rules t' \<and> equal_up_to_ties sample_Rules sample_Tx_normal t'
        \<and> (tie_free sample_Rules sample_Tx_normal \<longrightarrow> t' = sample_Tx_normal))"
    by (rule conjunct1)
  from this c obtain t' where
    n: "Normalize sample_sort sample_Rules sample_Tx_normal = Inr (t', 0)"
    and u: "tie_free sample_Rules sample_Tx_normal \<longrightarrow> t' = sample_Tx_normal"
    by blast
  from u sample_Tx_normal_tie_free have "t' = sample_Tx_normal" by (rule mp)
  with n have 1: "Normalize sample_sort sample_Rules sample_Tx_normal = Inr (sample_Tx_normal, 0)"
    by simp
  from th [of sample_Rules sample_Tx]
  have "\<forall>t1 n. Normalize sample_sort sample_Rules sample_Tx = Inr (t1, n) \<longrightarrow>
      (\<exists>t2. Normalize sample_sort sample_Rules t1 = Inr (t2, 0) \<and> canonical sample_Rules t2
        \<and> equal_up_to_ties sample_Rules t1 t2 \<and> (tie_free sample_Rules t1 \<longrightarrow> t2 = t1))"
    by (rule conjunct2)
  with sample_Normalize obtain t2 where
    "Normalize sample_sort sample_Rules sample_Tx_normal = Inr (t2, 0)"
    "tie_free sample_Rules sample_Tx_normal \<longrightarrow> t2 = sample_Tx_normal"
    by blast
  with sample_Tx_normal_tie_free
  have 3: "Normalize sample_sort sample_Rules sample_Tx_normal = Inr (sample_Tx_normal, 0)"
    by simp
  from th [of sample_Rules sample_Tx_tied]
  have "canonical sample_Rules sample_Tx_tied \<longrightarrow>
      (\<exists>t'. Normalize sample_sort sample_Rules sample_Tx_tied = Inr (t', 0)
        \<and> canonical sample_Rules t' \<and> equal_up_to_ties sample_Rules sample_Tx_tied t'
        \<and> (tie_free sample_Rules sample_Tx_tied \<longrightarrow> t' = sample_Tx_tied))"
    by (rule conjunct1)
  from this sample_Tx_tied_canonical obtain t'' where
    n': "Normalize sample_sort sample_Rules sample_Tx_tied = Inr (t'', 0)"
    and e: "equal_up_to_ties sample_Rules sample_Tx_tied t''"
    by blast
  from n' sample_Normalize_tied have "t'' = sample_Tx_tied_1" by simp
  with e have 2: "equal_up_to_ties sample_Rules sample_Tx_tied sample_Tx_tied_1" by simp
  from c sample_Tx_normal_tie_free 1 2 3 sample_Normalize sample_Tx_tied_canonical
    sample_Normalize_tied sample_sort_conforming
  show ?thesis by simp
qed

text \<open>
  C4 (as stated) fails where elements compare equal, as \<open>std::sort\<close> does not keep the
  order of equivalent elements. The transaction of 17 inputs with one commitment and 17
  kernels that compare equal is canonical; \<open>Normalize\<close> with the introsort returns 0 and
  both vectors in another order, and a second run reorders the result of the first.
\<close>

theorem C4_tied_elements_counterexample:
  "std_sort_conforming sample_sort
   \<and> canonical sample_Rules sample_Tx_tied
   \<and> Normalize sample_sort sample_Rules sample_Tx_tied = Inr (sample_Tx_tied_1, 0)
   \<and> sample_Tx_tied_1 \<noteq> sample_Tx_tied
   \<and> Normalize sample_sort sample_Rules sample_Tx_tied_1 = Inr (sample_Tx_tied_2, 0)
   \<and> sample_Tx_tied_2 \<noteq> sample_Tx_tied_1"
  using sample_sort_conforming sample_Tx_tied_canonical sample_Normalize_tied
    sample_Normalize_tied_1 sample_Tx_tied_changed
  by simp

end
